theory Spec2Isabelle
  imports Complex_Main
begin

section \<open>Errors raised by the pipeline\<close>

text \<open>
  Every \<^verbatim>\<open>raise\<close> that can leave \<^verbatim>\<open>overlay_from_json.py\<close> is a value of this type;
  a function that can raise returns \<open>error + 'a\<close> with \<open>Inl\<close> for the exception.
  The file contains no \<^verbatim>\<open>try\<close>/\<^verbatim>\<open>except\<close>, so an error, once raised, reaches the caller
  of \<^verbatim>\<open>build_from_json\<close>.
\<close>

datatype error =
    ZeroDivisionError
  | KeyError string
  | RuntimeError string
  | ValueError string
  | RegionFileError string
  | ImageOpenError string
  | OcrEngineError string
  | SaveError string

section \<open>Unit converter (lines 26-28) and the length constructors of the document libraries\<close>

text \<open>
  Python floats are modelled as exact rationals: \<open>/\<close> and \<open>*\<close> do not round.
  \<^verbatim>\<open>int(x)\<close> on a float truncates toward zero.
\<close>

definition EMU_PER_INCH :: int where
  "EMU_PER_INCH = 914400"

definition py_int :: "rat \<Rightarrow> int" where
  "py_int x = (if 0 \<le> x then \<lfloor>x\<rfloor> else \<lceil>x\<rceil>)"

definition px_to_inches :: "rat \<Rightarrow> rat \<Rightarrow> error + rat" where
  "px_to_inches px dpi = (if dpi = 0 then Inl ZeroDivisionError else Inr (px / dpi))"

definition px_to_emu :: "rat \<Rightarrow> rat \<Rightarrow> error + int" where
  "px_to_emu px dpi =
     (case px_to_inches px dpi of
        Inl e \<Rightarrow> Inl e
      | Inr inches \<Rightarrow> Inr (py_int (inches * of_int EMU_PER_INCH)))"

text \<open>
  \<^verbatim>\<open>pptx.util.Inches\<close>, \<^verbatim>\<open>pptx.util.Pt\<close> and \<^verbatim>\<open>docx.shared.Emu\<close>: a length is an
  integer number of EMU, obtained with \<^verbatim>\<open>int(...)\<close>.
\<close>

definition Inches :: "rat \<Rightarrow> int" where
  "Inches inches = py_int (inches * 914400)"

definition Pt :: "rat \<Rightarrow> int" where
  "Pt points = py_int (points * 12700)"

definition Emu :: "rat \<Rightarrow> int" where
  "Emu emu = py_int emu"



section \<open>Python truthiness and \<^verbatim>\<open>str.strip\<close>\<close>

definition truthy_str :: "string option \<Rightarrow> bool" where
  "truthy_str s = (case s of None \<Rightarrow> False | Some t \<Rightarrow> t \<noteq> [])"

definition truthy_num :: "rat option \<Rightarrow> bool" where
  "truthy_num x = (case x of None \<Rightarrow> False | Some v \<Rightarrow> v \<noteq> 0)"

text \<open>
  \<^verbatim>\<open>str.strip()\<close> removes leading and trailing white space; of the characters
  \<^verbatim>\<open>str.isspace\<close> accepts, the ASCII ones are modelled (strings are lists of 8-bit
  characters).
\<close>

definition is_space :: "char \<Rightarrow> bool" where
  "is_space c = (c \<in> set [CHR '' '', CHR 0x09, CHR 0x0A, CHR 0x0B, CHR 0x0C, CHR 0x0D,
                            CHR 0x1C, CHR 0x1D, CHR 0x1E, CHR 0x1F])"

definition strip :: "string \<Rightarrow> string" where
  "strip s = rev (dropWhile is_space (rev (dropWhile is_space s)))"

section \<open>\<^verbatim>\<open>pathlib.Path\<close> on POSIX, as far as line 44 uses it\<close>

text \<open>
  A path is its root (\<open>''''\<close>, \<open>''/''\<close> or \<open>''//''\<close>) and its components; parsing drops empty
  components and \<open>''.''\<close> components. \<^verbatim>\<open>with_suffix("")\<close> raises \<^verbatim>\<open>ValueError\<close> on a path
  whose name is empty and otherwise removes the suffix of the last component.
\<close>

fun split_on :: "char \<Rightarrow> string \<Rightarrow> string list" where
  "split_on c [] = [[]]"
| "split_on c (x # xs) =
     (if x = c then [] # split_on c xs
      else (case split_on c xs of
              [] \<Rightarrow> [[x]]
            | p # ps \<Rightarrow> (x # p) # ps))"

fun join_with :: "char \<Rightarrow> string list \<Rightarrow> string" where
  "join_with c [] = []"
| "join_with c [p] = p"
| "join_with c (p # q # ps) = p @ c # join_with c (q # ps)"

definition path_root :: "string \<Rightarrow> string" where
  "path_root s =
     (if take 2 s = ''//'' \<and> take 3 s \<noteq> ''///'' then ''//''
      else if take 1 s = ''/'' then ''/''
      else [])"

definition path_parts :: "string \<Rightarrow> string list" where
  "path_parts s = filter (\<lambda>p. p \<noteq> [] \<and> p \<noteq> ''.'') (split_on CHR ''/'' s)"

definition Path :: "string \<Rightarrow> string \<times> string list" where
  "Path s = (path_root s, path_parts s)"

definition path_str :: "string \<times> string list \<Rightarrow> string" where
  "path_str p =
     (if fst p = [] \<and> snd p = [] then ''.'' else fst p @ join_with CHR ''/'' (snd p))"

fun rfind :: "char \<Rightarrow> string \<Rightarrow> nat option" where
  "rfind c [] = None"
| "rfind c (x # xs) =
     (case rfind c xs of
        Some i \<Rightarrow> Some (Suc i)
      | None \<Rightarrow> (if x = c then Some 0 else None))"

definition suffix_of :: "string \<Rightarrow> string" where
  "suffix_of name =
     (case rfind CHR ''.'' name of
        None \<Rightarrow> []
      | Some i \<Rightarrow> (if 0 < i \<and> i + 1 < length name then drop i name else []))"

definition with_suffix_empty :: "string \<times> string list \<Rightarrow> error + string \<times> string list" where
  "with_suffix_empty p =
     (if snd p = [] then Inl (ValueError ''has an empty name'')
      else let name = last (snd p);
               stem = take (length name - length (suffix_of name)) name
           in Inr (fst p, butlast (snd p) @ [stem]))"

definition clean_path :: "string \<Rightarrow> error + string" where
  "clean_path img_path =
     (case with_suffix_empty (Path img_path) of
        Inl e \<Rightarrow> Inl e
      | Inr p \<Rightarrow> Inr (path_str p @ ''_clean.png''))"

section \<open>Data model: the region file, and the world the run reads from\<close>

text \<open>
  A box is the dictionary \<^verbatim>\<open>{"left", "top", "width", "height"}\<close> of the region file, with the
  key \<^verbatim>\<open>"text"\<close> that \<^verbatim>\<open>build_from_json\<close> adds (absent on input). The records fix the schema
  of the region file: the four box keys, \<^verbatim>\<open>"path"\<close> and \<^verbatim>\<open>"boxes"\<close> are present and
  the coordinates are integers.
\<close>

record box =
  b_left :: int
  b_top :: int
  b_width :: int
  b_height :: int
  b_text :: "string option"

record image_meta =
  im_path :: string
  im_width :: int
  im_height :: int
  im_boxes :: "box list"

record ocr_request =
  rq_cmd :: string
  rq_source :: string
  rq_crop :: "int \<times> int \<times> int \<times> int"
  rq_lang :: string
  rq_config :: "string \<times> int"

text \<open>
  What the run obtains from outside: the parsed region file
  (\<^verbatim>\<open>json.loads(Path(json_path).read_text())["images"]\<close>), the size \<open>(w, h)\<close> of an image
  opened with PIL, the shape \<open>(h, w)\<close> of an image read with \<^verbatim>\<open>cv2.imread\<close> (\<open>None\<close> when it
  cannot be read), the OCR engine \<^verbatim>\<open>pytesseract.image_to_string\<close>, whether a document can be
  saved at a path, and the sizes of the documents that \<^verbatim>\<open>Presentation()\<close> and \<^verbatim>\<open>Document()\<close>
  create.
\<close>

record world =
  read_region_file :: "string \<Rightarrow> error + image_meta list"
  pil_open :: "string \<Rightarrow> error + nat \<times> nat"
  cv_imread :: "string \<Rightarrow> (nat \<times> nat) option"
  image_to_string :: "ocr_request \<Rightarrow> error + string option"
  can_save :: "string \<Rightarrow> bool"
  default_slide_size :: "int \<times> int"
  default_page_size :: "int \<times> int"
  default_page_margins :: "int \<times> int \<times> int \<times> int"

section \<open>Background erase (lines 31-46)\<close>

text \<open>
  The mask is the \<open>h\<close> by \<open>w\<close> array of bytes, read at column \<open>x\<close> and row \<open>y\<close>; outside the
  image it has no pixel and reads 0. \<^verbatim>\<open>cv2.rectangle\<close> with \<^verbatim>\<open>thickness=-1\<close> fills the
  axis-parallel rectangle spanned by its two corner points, both corners included, in
  whichever order they are given, clipped to the image. \<^verbatim>\<open>cv2.dilate\<close> with the 3 by 3
  kernel of ones takes at every pixel the maximum over the pixels of the image in its
  3 by 3 neighbourhood.
\<close>

type_synonym mask = "int \<Rightarrow> int \<Rightarrow> nat"

definition in_image :: "nat \<Rightarrow> nat \<Rightarrow> int \<Rightarrow> int \<Rightarrow> bool" where
  "in_image w h x y = (0 \<le> x \<and> x < int w \<and> 0 \<le> y \<and> y < int h)"

definition zeros :: mask where
  "zeros = (\<lambda>x y. 0)"

definition rectangle_filled :: "nat \<Rightarrow> nat \<Rightarrow> mask \<Rightarrow> int \<times> int \<Rightarrow> int \<times> int \<Rightarrow> nat \<Rightarrow> mask" where
  "rectangle_filled w h m pt1 pt2 color =
     (\<lambda>x y. if in_image w h x y
               \<and> min (fst pt1) (fst pt2) \<le> x \<and> x \<le> max (fst pt1) (fst pt2)
               \<and> min (snd pt1) (snd pt2) \<le> y \<and> y \<le> max (snd pt1) (snd pt2)
             then color else m x y)"

definition neighbours3 :: "nat \<Rightarrow> nat \<Rightarrow> int \<Rightarrow> int \<Rightarrow> (int \<times> int) list" where
  "neighbours3 w h x y =
     filter (\<lambda>p. in_image w h (fst p) (snd p))
       (concat (map (\<lambda>dx. map (\<lambda>dy. (x + dx, y + dy)) [- 1, 0, 1]) [- 1, 0, 1]))"

definition dilate3 :: "nat \<Rightarrow> nat \<Rightarrow> mask \<Rightarrow> mask" where
  "dilate3 w h m =
     (\<lambda>x y. if in_image w h x y
             then fold max (map (\<lambda>p. m (fst p) (snd p)) (neighbours3 w h x y)) 0
             else 0)"

fun mask_boxes :: "nat \<Rightarrow> nat \<Rightarrow> int \<Rightarrow> box list \<Rightarrow> mask \<Rightarrow> mask" where
  "mask_boxes w h expand_px [] m = m"
| "mask_boxes w h expand_px (b # bs) m =
     (let x0 = max 0 (b_left b - expand_px);
          y0 = max 0 (b_top b - expand_px);
          x1 = min (int w) (b_left b + b_width b + expand_px);
          y1 = min (int h) (b_top b + b_height b + expand_px)
      in mask_boxes w h expand_px bs (rectangle_filled w h m (x0, y0) (x1, y1) 255))"

definition erase_mask :: "nat \<Rightarrow> nat \<Rightarrow> int \<Rightarrow> box list \<Rightarrow> mask" where
  "erase_mask w h expand_px boxes = dilate3 w h (mask_boxes w h expand_px boxes zeros)"

text \<open>
  The one file \<^verbatim>\<open>inpaint_background\<close> writes: its path, and its content as the inpainting
  of the source image under a mask with a radius.
\<close>

record file_write =
  fw_path :: string
  fw_source :: string
  fw_mask :: mask
  fw_radius :: int

definition inpaint_background ::
  "world \<Rightarrow> string \<Rightarrow> box list \<Rightarrow> int \<Rightarrow> int \<Rightarrow> error + string \<times> file_write" where
  "inpaint_background wld img_path boxes expand_px radius =
     (case cv_imread wld img_path of
        None \<Rightarrow> Inl (RuntimeError (''Could not read '' @ img_path))
      | Some (h, w) \<Rightarrow>
          (case clean_path img_path of
             Inl e \<Rightarrow> Inl e
           | Inr out_path \<Rightarrow>
               Inr (out_path,
                    \<lparr>fw_path = out_path, fw_source = img_path,
                     fw_mask = erase_mask w h expand_px boxes, fw_radius = radius\<rparr>)))"

section \<open>OCR (lines 49-52)\<close>

definition psm_config :: "int \<Rightarrow> string \<times> int" where
  "psm_config psm = (''--psm '', psm)"

definition ocr_crop :: "world \<Rightarrow> string \<Rightarrow> string \<Rightarrow> int \<times> int \<times> int \<times> int \<Rightarrow> string \<Rightarrow> int
    \<Rightarrow> error + string" where
  "ocr_crop wld cmd source crop lang psm =
     (case image_to_string wld
             \<lparr>rq_cmd = cmd, rq_source = source, rq_crop = crop, rq_lang = lang,
              rq_config = psm_config psm\<rparr> of
        Inl e \<Rightarrow> Inl e
      | Inr txt \<Rightarrow> Inr (strip (case txt of None \<Rightarrow> [] | Some t \<Rightarrow> t)))"

section \<open>Slide deck (lines 55-110)\<close>

text \<open>
  A presentation has one slide size, held by the presentation itself
  (\<^verbatim>\<open>prs.slide_width\<close>, \<^verbatim>\<open>prs.slide_height\<close>), and its slides in order; a slide is the
  list of its shapes in the order they were added. Of a text box the record keeps every
  attribute \<^verbatim>\<open>add_pptx_text\<close> assigns; \<open>tb_auto_size\<close> and \<open>tb_font_name\<close> are \<open>None\<close> and
  \<open>tb_rtl\<close> is \<open>False\<close> where the function assigns nothing.
\<close>

datatype MSO_ANCHOR = ANCHOR_TOP | ANCHOR_MIDDLE | ANCHOR_BOTTOM

datatype MSO_AUTO_SIZE = AUTO_NONE | SHAPE_TO_FIT_TEXT | TEXT_TO_FIT_SHAPE

datatype PP_ALIGN = ALIGN_LEFT | ALIGN_CENTER | ALIGN_RIGHT

record textbox =
  tb_left :: int
  tb_top :: int
  tb_width :: int
  tb_height :: int
  tb_word_wrap :: bool
  tb_vertical_anchor :: MSO_ANCHOR
  tb_margin_left :: int
  tb_margin_right :: int
  tb_margin_top :: int
  tb_margin_bottom :: int
  tb_auto_size :: "MSO_AUTO_SIZE option"
  tb_alignment :: PP_ALIGN
  tb_rtl :: bool
  tb_space_before :: int
  tb_space_after :: int
  tb_line_spacing :: rat
  tb_run_text :: string
  tb_font_name :: "string option"
  tb_font_size :: int

record picture =
  pic_path :: string
  pic_left :: int
  pic_top :: int
  pic_width :: int
  pic_height :: int

record outline =
  ol_shape_type :: int
  ol_left :: int
  ol_top :: int
  ol_width :: int
  ol_height :: int
  ol_line_width :: int

datatype shape = Picture picture | AutoShape outline | TextBox textbox

type_synonym slide = "shape list"

record presentation =
  slide_width :: int
  slide_height :: int
  slides :: "slide list"

definition Presentation :: "world \<Rightarrow> presentation" where
  "Presentation wld =
     \<lparr>slide_width = fst (default_slide_size wld),
      slide_height = snd (default_slide_size wld), slides = []\<rparr>"

definition add_pptx_bg :: "slide \<Rightarrow> string \<Rightarrow> rat \<Rightarrow> rat \<Rightarrow> slide" where
  "add_pptx_bg sl img_path w_in h_in =
     sl @ [Picture \<lparr>pic_path = img_path, pic_left = Inches 0, pic_top = Inches 0,
                    pic_width = Inches w_in, pic_height = Inches h_in\<rparr>]"

text \<open>The body of the loop of \<^verbatim>\<open>add_pptx_text\<close> (lines 71-110) for one box.\<close>

definition add_pptx_text_box ::
  "slide \<Rightarrow> box \<Rightarrow> rat \<Rightarrow> string option \<Rightarrow> rat option \<Rightarrow> bool \<Rightarrow> bool \<Rightarrow> rat \<Rightarrow> bool
     \<Rightarrow> error + slide" where
  "add_pptx_text_box sl b dpi font_name font_size_pt rtl ppt_autofit margin_in debug_outline =
     (case px_to_inches (of_int (b_left b)) dpi of Inl e \<Rightarrow> Inl e | Inr li \<Rightarrow>
      case px_to_inches (of_int (b_top b)) dpi of Inl e \<Rightarrow> Inl e | Inr ti \<Rightarrow>
      case px_to_inches (of_int (b_width b)) dpi of Inl e \<Rightarrow> Inl e | Inr wi \<Rightarrow>
      case px_to_inches (of_int (b_height b)) dpi of Inl e \<Rightarrow> Inl e | Inr hi \<Rightarrow>
        Inr (sl
             @ (if debug_outline
                then [AutoShape \<lparr>ol_shape_type = 1, ol_left = Inches li, ol_top = Inches ti,
                                  ol_width = Inches wi, ol_height = Inches hi,
                                  ol_line_width = Pt (1 / 2)\<rparr>]
                else [])
             @ [TextBox
                 \<lparr>tb_left = Inches li, tb_top = Inches ti,
                  tb_width = Inches wi, tb_height = Inches hi,
                  tb_word_wrap = True,
                  tb_vertical_anchor = ANCHOR_TOP,
                  tb_margin_left = Inches margin_in,
                  tb_margin_right = Inches margin_in,
                  tb_margin_top = Inches margin_in,
                  tb_margin_bottom = Inches margin_in,
                  tb_auto_size = (if ppt_autofit then Some TEXT_TO_FIT_SHAPE else None),
                  tb_alignment = ALIGN_LEFT,
                  tb_rtl = rtl,
                  tb_space_before = Pt 0,
                  tb_space_after = Pt 0,
                  tb_line_spacing = 105 / 100,
                  tb_run_text = (case b_text b of None \<Rightarrow> ''[edit]'' | Some t \<Rightarrow> t),
                  tb_font_name = (if truthy_str font_name then font_name else None),
                  tb_font_size =
                    (if truthy_num font_size_pt then Pt (the font_size_pt)
                     else if ppt_autofit then Pt 80 else Pt 12)\<rparr>]))"

fun add_pptx_text_loop ::
  "slide \<Rightarrow> box list \<Rightarrow> rat \<Rightarrow> string option \<Rightarrow> rat option \<Rightarrow> bool \<Rightarrow> bool \<Rightarrow> rat \<Rightarrow> bool
     \<Rightarrow> error + slide" where
  "add_pptx_text_loop sl [] dpi font_name font_size_pt rtl ppt_autofit margin_in debug_outline =
     Inr sl"
| "add_pptx_text_loop sl (b # bs) dpi font_name font_size_pt rtl ppt_autofit margin_in
       debug_outline =
     (case add_pptx_text_box sl b dpi font_name font_size_pt rtl ppt_autofit margin_in
             debug_outline of
        Inl e \<Rightarrow> Inl e
      | Inr sl' \<Rightarrow>
          add_pptx_text_loop sl' bs dpi font_name font_size_pt rtl ppt_autofit margin_in
            debug_outline)"

definition add_pptx_text ::
  "slide \<Rightarrow> box list \<Rightarrow> rat \<Rightarrow> string option \<Rightarrow> rat option \<Rightarrow> bool \<Rightarrow> bool \<Rightarrow> rat \<Rightarrow> bool
     \<Rightarrow> error + slide" where
  "add_pptx_text sl boxes dpi font_name font_size_pt rtl ppt_autofit ppt_margin_pt debug_outline =
     (let margin_in = max 0 ppt_margin_pt / 72
      in add_pptx_text_loop sl boxes dpi font_name font_size_pt rtl ppt_autofit margin_in
           debug_outline)"

section \<open>Word-processor document (lines 113-169)\<close>

text \<open>
  The document has one section; its page size and margins are the section's. The header
  of the section collects the background pictures, the body the page breaks and the
  paragraphs that each anchor one text box.
\<close>

record docx_textbox =
  dt_left_emu :: int
  dt_top_emu :: int
  dt_width_emu :: int
  dt_height_emu :: int
  dt_text :: string
  dt_font_name :: "string option"
  dt_sz :: "int option"
  dt_rtl :: bool

datatype body_item = PageBreak | TextBoxParagraph docx_textbox

record document =
  page_width :: int
  page_height :: int
  left_margin :: int
  right_margin :: int
  top_margin :: int
  bottom_margin :: int
  header_pictures :: "(string \<times> int \<times> int) list"
  body :: "body_item list"

definition Document :: "world \<Rightarrow> document" where
  "Document wld =
     (case default_page_margins wld of (l, r, t, b) \<Rightarrow>
        \<lparr>page_width = fst (default_page_size wld), page_height = snd (default_page_size wld),
         left_margin = l, right_margin = r, top_margin = t, bottom_margin = b,
         header_pictures = [], body = []\<rparr>)"

definition add_docx_bg_header :: "document \<Rightarrow> string \<Rightarrow> document" where
  "add_docx_bg_header doc img_path =
     doc\<lparr>header_pictures := header_pictures doc @ [(img_path, page_width doc, page_height doc)]\<rparr>"

definition add_docx_textbox ::
  "int \<Rightarrow> int \<Rightarrow> int \<Rightarrow> int \<Rightarrow> string \<Rightarrow> string option \<Rightarrow> rat option \<Rightarrow> bool \<Rightarrow> docx_textbox" where
  "add_docx_textbox left_emu top_emu width_emu height_emu txt font_name font_size_pt rtl =
     \<lparr>dt_left_emu = left_emu, dt_top_emu = top_emu,
      dt_width_emu = width_emu, dt_height_emu = height_emu,
      dt_text = txt,
      dt_font_name = (if truthy_str font_name then font_name else None),
      dt_sz = (if truthy_num font_size_pt then Some (py_int (the font_size_pt * 2)) else None),
      dt_rtl = rtl\<rparr>"

section \<open>The builder (lines 172-240)\<close>

text \<open>The keyword arguments of \<^verbatim>\<open>build_from_json\<close>, as the command line fills them.\<close>

record options =
  opt_out_pptx :: "string option"
  opt_out_docx :: "string option"
  opt_dpi :: rat
  opt_font_name :: "string option"
  opt_font_size_pt :: "rat option"
  opt_rtl :: bool
  opt_erase :: bool
  opt_expand_px :: int
  opt_radius :: int
  opt_ocr_prefill :: bool
  opt_lang :: string
  opt_tesseract_path :: "string option"
  opt_psm :: int
  opt_ppt_autofit :: bool
  opt_ppt_margin_pt :: rat
  opt_debug_outline :: bool

text \<open>
  What a run does to the outside, in order: the images it opens, the OCR calls that
  returned, the image files it writes. A run that raises returns the error only.
\<close>

datatype event =
    Opened string
  | OcrCall string "int \<times> int \<times> int \<times> int"
  | Wrote file_write

record run_state =
  st_prs :: "presentation option"
  st_doc :: "document option"
  st_trace :: "event list"

record outcome =
  oc_pptx :: "(string \<times> presentation) option"
  oc_docx :: "(string \<times> document) option"
  oc_trace :: "event list"

definition tesseract_cmd :: "options \<Rightarrow> string" where
  "tesseract_cmd opts =
     (if truthy_str (opt_tesseract_path opts) then the (opt_tesseract_path opts)
      else ''tesseract'')"

text \<open>Lines 194-201: one box of the prefill loop, with the OCR call it makes.\<close>

definition crop_box :: "box \<Rightarrow> int \<times> int \<times> int \<times> int" where
  "crop_box b = (b_left b, b_top b, b_left b + b_width b, b_top b + b_height b)"

definition prefill_box :: "world \<Rightarrow> options \<Rightarrow> string \<Rightarrow> box \<Rightarrow> error + box \<times> event list" where
  "prefill_box wld opts img_path b =
     (if opt_ocr_prefill opts then
        (let crop = crop_box b
         in case ocr_crop wld (tesseract_cmd opts) img_path crop (opt_lang opts) (opt_psm opts) of
              Inl e \<Rightarrow> Inl e
            | Inr txt \<Rightarrow>
                Inr (b\<lparr>b_text := Some (if txt \<noteq> [] then txt else ''[edit]'')\<rparr>,
                     [OcrCall img_path crop]))
      else Inr (b\<lparr>b_text := Some ''[edit]''\<rparr>, []))"

fun prefill_loop ::
  "world \<Rightarrow> options \<Rightarrow> string \<Rightarrow> box list \<Rightarrow> box list \<Rightarrow> event list
     \<Rightarrow> error + box list \<times> event list" where
  "prefill_loop wld opts img_path [] boxes tr = Inr (boxes, tr)"
| "prefill_loop wld opts img_path (b # bs) boxes tr =
     (case prefill_box wld opts img_path b of
        Inl e \<Rightarrow> Inl e
      | Inr (bb, ev) \<Rightarrow> prefill_loop wld opts img_path bs (boxes @ [bb]) (tr @ ev))"

text \<open>Lines 210-216: the slide of one page.\<close>

definition pptx_page ::
  "presentation \<Rightarrow> options \<Rightarrow> string \<Rightarrow> rat \<Rightarrow> rat \<Rightarrow> box list \<Rightarrow> error + presentation" where
  "pptx_page prs opts bg_path w_in h_in boxes =
     (let prs1 = prs\<lparr>slide_width := Inches w_in, slide_height := Inches h_in\<rparr>;
          sl = add_pptx_bg [] bg_path w_in h_in
      in case add_pptx_text sl boxes (opt_dpi opts) (opt_font_name opts) (opt_font_size_pt opts)
                (opt_rtl opts) (opt_ppt_autofit opts) (opt_ppt_margin_pt opts)
                (opt_debug_outline opts) of
           Inl e \<Rightarrow> Inl e
         | Inr sl' \<Rightarrow> Inr (prs1\<lparr>slides := slides prs1 @ [sl']\<rparr>))"

text \<open>Lines 226-237: the text boxes of one page of the word-processor document.\<close>

fun docx_text_loop :: "document \<Rightarrow> options \<Rightarrow> box list \<Rightarrow> error + document" where
  "docx_text_loop doc opts [] = Inr doc"
| "docx_text_loop doc opts (b # bs) =
     (case px_to_emu (of_int (b_left b)) (opt_dpi opts) of Inl e \<Rightarrow> Inl e | Inr left_emu \<Rightarrow>
      case px_to_emu (of_int (b_top b)) (opt_dpi opts) of Inl e \<Rightarrow> Inl e | Inr top_emu \<Rightarrow>
      case px_to_emu (of_int (b_width b)) (opt_dpi opts) of Inl e \<Rightarrow> Inl e | Inr width_emu \<Rightarrow>
      case px_to_emu (of_int (b_height b)) (opt_dpi opts) of Inl e \<Rightarrow> Inl e | Inr height_emu \<Rightarrow>
      case b_text b of None \<Rightarrow> Inl (KeyError ''text'') | Some txt \<Rightarrow>
        docx_text_loop
          (doc\<lparr>body := body doc
                   @ [TextBoxParagraph
                        (add_docx_textbox left_emu top_emu width_emu height_emu txt
                           (opt_font_name opts) (opt_font_size_pt opts) (opt_rtl opts))]\<rparr>)
          opts bs)"

text \<open>Lines 219-237: one page of the word-processor document.\<close>

definition docx_page ::
  "nat \<Rightarrow> document \<Rightarrow> options \<Rightarrow> string \<Rightarrow> rat \<Rightarrow> rat \<Rightarrow> box list \<Rightarrow> error + document" where
  "docx_page i doc opts bg_path w_in h_in boxes =
     (let doc1 = (if 0 < i then doc\<lparr>body := body doc @ [PageBreak]\<rparr> else doc);
          m = Inches (1 / 4);
          doc2 = doc1\<lparr>page_width := Emu (w_in * of_int EMU_PER_INCH),
                      page_height := Emu (h_in * of_int EMU_PER_INCH),
                      left_margin := m, right_margin := m, top_margin := m, bottom_margin := m\<rparr>;
          doc3 = add_docx_bg_header doc2 bg_path
      in docx_text_loop doc3 opts boxes)"

text \<open>Lines 187-237: the body of the loop over the images, for image number \<open>i\<close>.\<close>

definition page_step :: "world \<Rightarrow> options \<Rightarrow> nat \<Rightarrow> image_meta \<Rightarrow> run_state \<Rightarrow> error + run_state" where
  "page_step wld opts i imeta st =
     (let img_path = im_path imeta in
      case pil_open wld img_path of Inl e \<Rightarrow> Inl e | Inr (w_px, h_px) \<Rightarrow>
      case prefill_loop wld opts img_path (im_boxes imeta) [] (st_trace st @ [Opened img_path]) of
        Inl e \<Rightarrow> Inl e | Inr (boxes, tr) \<Rightarrow>
      case (if opt_erase opts
            then (case inpaint_background wld img_path boxes (opt_expand_px opts) (opt_radius opts) of
                    Inl e \<Rightarrow> Inl e
                  | Inr (out_path, fw) \<Rightarrow> Inr (out_path, tr @ [Wrote fw]))
            else Inr (img_path, tr)) of
        Inl e \<Rightarrow> Inl e | Inr (bg_path, tr') \<Rightarrow>
      case px_to_inches (of_nat w_px) (opt_dpi opts) of Inl e \<Rightarrow> Inl e | Inr w_in \<Rightarrow>
      case px_to_inches (of_nat h_px) (opt_dpi opts) of Inl e \<Rightarrow> Inl e | Inr h_in \<Rightarrow>
      case (case st_prs st of
              None \<Rightarrow> Inr None
            | Some prs \<Rightarrow>
                (case pptx_page prs opts bg_path w_in h_in boxes of
                   Inl e \<Rightarrow> Inl e | Inr prs' \<Rightarrow> Inr (Some prs'))) of
        Inl e \<Rightarrow> Inl e | Inr prs_opt \<Rightarrow>
      case (case st_doc st of
              None \<Rightarrow> Inr None
            | Some doc \<Rightarrow>
                (case docx_page i doc opts bg_path w_in h_in boxes of
                   Inl e \<Rightarrow> Inl e | Inr doc' \<Rightarrow> Inr (Some doc'))) of
        Inl e \<Rightarrow> Inl e | Inr doc_opt \<Rightarrow>
      Inr \<lparr>st_prs = prs_opt, st_doc = doc_opt, st_trace = tr'\<rparr>)"

fun pages_loop :: "world \<Rightarrow> options \<Rightarrow> nat \<Rightarrow> image_meta list \<Rightarrow> run_state \<Rightarrow> error + run_state" where
  "pages_loop wld opts i [] st = Inr st"
| "pages_loop wld opts i (imeta # rest) st =
     (case page_step wld opts i imeta st of
        Inl e \<Rightarrow> Inl e
      | Inr st' \<Rightarrow> pages_loop wld opts (Suc i) rest st')"

text \<open>Lines 239-240: saving a document that was requested.\<close>

definition save_to :: "world \<Rightarrow> string option \<Rightarrow> 'd option \<Rightarrow> error + (string \<times> 'd) option" where
  "save_to wld out_path d =
     (case d of
        None \<Rightarrow> Inr None
      | Some x \<Rightarrow>
          (if can_save wld (the out_path) then Inr (Some (the out_path, x))
           else Inl (SaveError (the out_path))))"

definition build_from_json :: "world \<Rightarrow> string \<Rightarrow> options \<Rightarrow> error + outcome" where
  "build_from_json wld json_path opts =
     (case read_region_file wld json_path of Inl e \<Rightarrow> Inl e | Inr images \<Rightarrow>
      let prs = (if truthy_str (opt_out_pptx opts) then Some (Presentation wld) else None);
          doc = (if truthy_str (opt_out_docx opts) then Some (Document wld) else None)
      in case pages_loop wld opts 0 images \<lparr>st_prs = prs, st_doc = doc, st_trace = []\<rparr> of
           Inl e \<Rightarrow> Inl e | Inr st \<Rightarrow>
         case save_to wld (opt_out_pptx opts) (st_prs st) of Inl e \<Rightarrow> Inl e | Inr sp \<Rightarrow>
         case save_to wld (opt_out_docx opts) (st_doc st) of Inl e \<Rightarrow> Inl e | Inr sd \<Rightarrow>
         Inr \<lparr>oc_pptx = sp, oc_docx = sd, oc_trace = st_trace st\<rparr>)"

section \<open>The properties of the erase mask, as the specification words them\<close>

text \<open>
  A pixel is marked for erasure when the mask handed to \<^verbatim>\<open>cv2.inpaint\<close> is non-zero there.
  \<open>strictly_inside_clamped\<close> is the open rectangle
  \<open>[left - m, top - m, left + width + m, top + height + m]\<close> clamped to the image;
  \<open>in_dilated_margin\<close> is that rectangle, unclamped, grown by the one pixel a 3 by 3
  dilation adds. \<open>box_filled\<close> is the set of pixels line 41 fills for one box.
\<close>

definition marked :: "mask \<Rightarrow> int \<Rightarrow> int \<Rightarrow> bool" where
  "marked m x y = (m x y \<noteq> 0)"

definition strictly_inside_clamped :: "nat \<Rightarrow> nat \<Rightarrow> int \<Rightarrow> box \<Rightarrow> int \<Rightarrow> int \<Rightarrow> bool" where
  "strictly_inside_clamped w h m b x y =
     (max 0 (b_left b - m) < x \<and> x < min (int w) (b_left b + b_width b + m)
      \<and> max 0 (b_top b - m) < y \<and> y < min (int h) (b_top b + b_height b + m))"

definition in_dilated_margin :: "int \<Rightarrow> box \<Rightarrow> int \<Rightarrow> int \<Rightarrow> bool" where
  "in_dilated_margin m b x y =
     (b_left b - m - 1 \<le> x \<and> x \<le> b_left b + b_width b + m + 1
      \<and> b_top b - m - 1 \<le> y \<and> y \<le> b_top b + b_height b + m + 1)"

definition nonneg_box :: "box \<Rightarrow> bool" where
  "nonneg_box b = (0 \<le> b_left b \<and> 0 \<le> b_top b \<and> 0 \<le> b_width b \<and> 0 \<le> b_height b)"

definition box_filled :: "nat \<Rightarrow> nat \<Rightarrow> int \<Rightarrow> box \<Rightarrow> int \<Rightarrow> int \<Rightarrow> bool" where
  "box_filled w h m b x y =
     (in_image w h x y
      \<and> min (max 0 (b_left b - m)) (min (int w) (b_left b + b_width b + m)) \<le> x
      \<and> x \<le> max (max 0 (b_left b - m)) (min (int w) (b_left b + b_width b + m))
      \<and> min (max 0 (b_top b - m)) (min (int h) (b_top b + b_height b + m)) \<le> y
      \<and> y \<le> max (max 0 (b_top b - m)) (min (int h) (b_top b + b_height b + m)))"

definition ex_small_box :: box where
  "ex_small_box = \<lparr>b_left = 10, b_top = 10, b_width = 2, b_height = 2, b_text = None\<rparr>"

section \<open>A small concrete run\<close>

text \<open>
  Two page images of different sizes, 96 by 96 and 192 by 96 pixels, the first with one
  box; an OCR engine that finds only white space; every file can be read and saved.
\<close>

definition ex_box :: box where
  "ex_box = \<lparr>b_left = 10, b_top = 10, b_width = 20, b_height = 10, b_text = None\<rparr>"

definition ex_images :: "image_meta list" where
  "ex_images =
     [\<lparr>im_path = ''pages/p1.png'', im_width = 96, im_height = 96, im_boxes = [ex_box]\<rparr>,
      \<lparr>im_path = ''pages/p2.png'', im_width = 192, im_height = 96, im_boxes = []\<rparr>]"

definition ex_world :: world where
  "ex_world =
     \<lparr>read_region_file =
        (\<lambda>p. if p = ''regions.json'' then Inr ex_images else Inl (RegionFileError p)),
      pil_open =
        (\<lambda>p. if p = ''pages/p1.png'' then Inr (96, 96)
             else if p = ''pages/p2.png'' then Inr (192, 96)
             else Inl (ImageOpenError p)),
      cv_imread =
        (\<lambda>p. if p = ''pages/p1.png'' then Some (96, 96)
             else if p = ''pages/p2.png'' then Some (96, 192)
             else None),
      image_to_string = (\<lambda>rq. Inr (Some '' '')),
      can_save = (\<lambda>p. True),
      default_slide_size = (9144000, 6858000),
      default_page_size = (7772400, 10058400),
      default_page_margins = (1143000, 1143000, 914400, 914400)\<rparr>"

definition ex_opts :: options where
  "ex_opts =
     \<lparr>opt_out_pptx = Some ''out.pptx'', opt_out_docx = None, opt_dpi = 96,
      opt_font_name = None, opt_font_size_pt = None, opt_rtl = False,
      opt_erase = False, opt_expand_px = 2, opt_radius = 3,
      opt_ocr_prefill = False, opt_lang = ''eng'', opt_tesseract_path = None, opt_psm = 6,
      opt_ppt_autofit = False, opt_ppt_margin_pt = 3 / 2, opt_debug_outline = False\<rparr>"

section \<open>Reading the documents a run produces\<close>

text \<open>
  Projections used to state what a run produced: the text boxes and the pictures of a
  slide in their order, the rectangle of a text box, and the rectangle a box of the
  region file converts to at a resolution (position and size in EMU, as
  \<^verbatim>\<open>Inches(px / dpi)\<close> and \<^verbatim>\<open>px_to_emu(px, dpi)\<close> both compute it).
\<close>

fun shape_textbox :: "shape \<Rightarrow> textbox list" where
  "shape_textbox (TextBox tb) = [tb]"
| "shape_textbox (Picture p) = []"
| "shape_textbox (AutoShape r) = []"

fun shape_picture :: "shape \<Rightarrow> picture list" where
  "shape_picture (Picture p) = [p]"
| "shape_picture (TextBox tb) = []"
| "shape_picture (AutoShape r) = []"

definition slide_textboxes :: "slide \<Rightarrow> textbox list" where
  "slide_textboxes sl = concat (map shape_textbox sl)"

definition slide_pictures :: "slide \<Rightarrow> picture list" where
  "slide_pictures sl = concat (map shape_picture sl)"

definition textbox_geometry :: "textbox \<Rightarrow> int \<times> int \<times> int \<times> int" where
  "textbox_geometry tb = (tb_left tb, tb_top tb, tb_width tb, tb_height tb)"

definition textbox_margins :: "textbox \<Rightarrow> int \<times> int \<times> int \<times> int" where
  "textbox_margins tb =
     (tb_margin_left tb, tb_margin_right tb, tb_margin_top tb, tb_margin_bottom tb)"

definition box_geometry :: "rat \<Rightarrow> box \<Rightarrow> int \<times> int \<times> int \<times> int" where
  "box_geometry dpi b =
     (Inches (of_int (b_left b) / dpi), Inches (of_int (b_top b) / dpi),
      Inches (of_int (b_width b) / dpi), Inches (of_int (b_height b) / dpi))"

fun item_geometry :: "body_item \<Rightarrow> (int \<times> int \<times> int \<times> int) option" where
  "item_geometry PageBreak = None"
| "item_geometry (TextBoxParagraph t) =
     Some (dt_left_emu t, dt_top_emu t, dt_width_emu t, dt_height_emu t)"

text \<open>
  The body a document of pages \<open>i, i + 1, \<dots>\<close> is expected to have: a page break before
  every page but the first, then the page's boxes in their order.
\<close>

fun pages_geometry ::
  "rat \<Rightarrow> nat \<Rightarrow> image_meta list \<Rightarrow> (int \<times> int \<times> int \<times> int) option list" where
  "pages_geometry dpi i [] = []"
| "pages_geometry dpi i (im # rest) =
     (if 0 < i then [None] else []) @ map (\<lambda>b. Some (box_geometry dpi b)) (im_boxes im)
     @ pages_geometry dpi (Suc i) rest"

fun event_opened :: "event \<Rightarrow> string list" where
  "event_opened (Opened p) = [p]"
| "event_opened (OcrCall p c) = []"
| "event_opened (Wrote fw) = []"

definition opened_images :: "event list \<Rightarrow> string list" where
  "opened_images tr = concat (map event_opened tr)"

definition background_path :: "options \<Rightarrow> string \<Rightarrow> string" where
  "background_path opts img_path =
     (if opt_erase opts
      then (case clean_path img_path of Inr q \<Rightarrow> q | Inl e \<Rightarrow> img_path)
      else img_path)"

definition saved_deck :: "error + outcome \<Rightarrow> presentation option" where
  "saved_deck r =
     (case r of
        Inl e \<Rightarrow> None
      | Inr out \<Rightarrow> (case oc_pptx out of None \<Rightarrow> None | Some (path, prs) \<Rightarrow> Some prs))"

text \<open>
  The property the specification asks of a slide deck for one page image: the size of
  the slide is the physical size of that image, in EMU.
\<close>

definition own_physical_size :: "world \<Rightarrow> rat \<Rightarrow> presentation \<Rightarrow> image_meta \<Rightarrow> bool" where
  "own_physical_size wld dpi prs im =
     (case pil_open wld (im_path im) of
        Inl e \<Rightarrow> False
      | Inr (w, h) \<Rightarrow>
          slide_width prs = Inches (of_nat w / dpi) \<and> slide_height prs = Inches (of_nat h / dpi))"

text \<open>
  What a slide owes the page image it was made for: its background picture is the page's
  background file at the physical size of the page image, and its text boxes are the
  page's boxes, converted, in the order of the region file.
\<close>

definition background_own_size :: "world \<Rightarrow> options \<Rightarrow> slide \<Rightarrow> image_meta \<Rightarrow> bool" where
  "background_own_size wld opts sl im =
     (case pil_open wld (im_path im) of
        Inl e \<Rightarrow> False
      | Inr (w, h) \<Rightarrow>
          map (\<lambda>p. (pic_path p, pic_width p, pic_height p)) (slide_pictures sl)
            = [(background_path opts (im_path im),
                Inches (of_nat w / opt_dpi opts), Inches (of_nat h / opt_dpi opts))])"

definition slide_matches :: "world \<Rightarrow> options \<Rightarrow> slide \<Rightarrow> image_meta \<Rightarrow> bool" where
  "slide_matches wld opts sl im =
     (background_own_size wld opts sl im
      \<and> map textbox_geometry (slide_textboxes sl)
          = map (box_geometry (opt_dpi opts)) (im_boxes im))"

text \<open>Variants of the concrete run.\<close>

definition ex_world_ocr_fails :: world where
  "ex_world_ocr_fails =
     ex_world\<lparr>image_to_string := (\<lambda>rq. Inl (OcrEngineError ''tesseract failed''))\<rparr>"

definition ex_opts_ocr :: options where
  "ex_opts_ocr = ex_opts\<lparr>opt_ocr_prefill := True\<rparr>"


definition ex_opts_both :: options where
  "ex_opts_both = ex_opts\<lparr>opt_out_docx := Some ''out.docx''\<rparr>"


section \<open>The unit converter\<close>






section \<open>The erase mask\<close>

lemma mask_boxes_step:
  "mask_boxes w h m (b # bs) M =
     mask_boxes w h m bs (\<lambda>x y. if box_filled w h m b x y then 255 else M x y)"
  by (simp add: Let_def rectangle_filled_def box_filled_def)

lemma mask_boxes_eq:
  "mask_boxes w h m bs M x y = (if \<exists>b\<in>set bs. box_filled w h m b x y then 255 else M x y)"
proof (induction bs arbitrary: M)
  case Nil
  show ?case by simp
next
  case (Cons b bs)
  show ?case unfolding mask_boxes_step Cons.IH by auto
qed

lemma fold_max_pos: "(0 < fold max xs (a::nat)) = (0 < a \<or> (\<exists>v\<in>set xs. 0 < v))"
  by (induction xs arbitrary: a) (auto simp: max_def)

lemma dilate3_marked:
  "marked (dilate3 w h M) x y =
     (in_image w h x y \<and> (\<exists>p\<in>set (neighbours3 w h x y). marked M (fst p) (snd p)))"
  by (simp add: marked_def dilate3_def fold_max_pos)

lemma grid3_iff:
  "((a, c) \<in> set (concat (map (\<lambda>dx. map (\<lambda>dy. (x + dx, y + dy)) [- 1, 0, 1]) [- 1, 0, 1])))
     = (\<bar>a - x\<bar> \<le> 1 \<and> \<bar>c - y\<bar> \<le> 1)" for a c x y :: int
proof -
  have a: "(\<bar>a - x\<bar> \<le> 1) = (a = x - 1 \<or> a = x \<or> a = x + 1)" by arith
  have c: "(\<bar>c - y\<bar> \<le> 1) = (c = y - 1 \<or> c = y \<or> c = y + 1)" by arith
  show ?thesis unfolding a c by simp blast
qed

lemma neighbours3_iff:
  "(p \<in> set (neighbours3 w h x y)) =
     (in_image w h (fst p) (snd p) \<and> \<bar>fst p - x\<bar> \<le> 1 \<and> \<bar>snd p - y\<bar> \<le> 1)"
proof (cases p)
  case (Pair a c)
  show ?thesis
    unfolding Pair neighbours3_def set_filter mem_Collect_eq grid3_iff fst_conv snd_conv
    by blast
qed

lemma mask_boxes_marked:
  "marked (mask_boxes w h m bs zeros) x y = (\<exists>b\<in>set bs. box_filled w h m b x y)"
  by (simp add: marked_def mask_boxes_eq zeros_def)

lemma erase_mask_marked:
  "marked (erase_mask w h m bs) x y =
     (in_image w h x y
      \<and> (\<exists>x' y'. \<bar>x' - x\<bar> \<le> 1 \<and> \<bar>y' - y\<bar> \<le> 1 \<and> (\<exists>b\<in>set bs. box_filled w h m b x' y')))"
proof -
  have "(\<exists>p\<in>set (neighbours3 w h x y). \<exists>b\<in>set bs. box_filled w h m b (fst p) (snd p))
      = (\<exists>x' y'. \<bar>x' - x\<bar> \<le> 1 \<and> \<bar>y' - y\<bar> \<le> 1 \<and> (\<exists>b\<in>set bs. box_filled w h m b x' y'))"
    (is "?L = ?R")
  proof
    assume ?L
    then obtain p b where "p \<in> set (neighbours3 w h x y)" "b \<in> set bs"
      "box_filled w h m b (fst p) (snd p)" by blast
    then show ?R unfolding neighbours3_iff by blast
  next
    assume ?R
    then obtain x' y' b where h: "\<bar>x' - x\<bar> \<le> 1" "\<bar>y' - y\<bar> \<le> 1" "b \<in> set bs"
      "box_filled w h m b x' y'" by blast
    then have "in_image w h x' y'" by (simp add: box_filled_def)
    then have "(x', y') \<in> set (neighbours3 w h x y)" using h by (simp add: neighbours3_iff)
    then show ?L using h by force
  qed
  then show ?thesis
    by (simp only: erase_mask_def dilate3_marked mask_boxes_marked)
qed

lemma filled_is_marked:
  assumes "b \<in> set boxes" and "box_filled w h m b x y"
  shows "marked (erase_mask w h m boxes) x y"
proof -
  have img: "in_image w h x y" using assms(2) by (simp add: box_filled_def)
  have "\<bar>x - x\<bar> \<le> 1 \<and> \<bar>y - y\<bar> \<le> 1 \<and> (\<exists>b\<in>set boxes. box_filled w h m b x y)"
    using assms by auto
  then show ?thesis unfolding erase_mask_marked using img by blast
qed

lemma inside_is_marked:
  assumes "b \<in> set boxes" and "strictly_inside_clamped w h m b x y"
  shows "marked (erase_mask w h m boxes) x y"
proof -
  have img: "in_image w h x y"
    using assms(2) by (simp add: strictly_inside_clamped_def in_image_def)
  have "box_filled w h m b x y"
    using assms(2) img by (simp add: strictly_inside_clamped_def box_filled_def)
  then show ?thesis using assms(1) by (intro filled_is_marked)
qed

lemma clamp_span:
  fixes x l m wd W :: int
  assumes "min (max 0 (l - m)) (min W (l + wd + m)) \<le> x"
    and "x \<le> max (max 0 (l - m)) (min W (l + wd + m))"
    and "0 \<le> x" and "x < W" and "0 \<le> m" and "0 \<le> l" and "0 \<le> wd"
  shows "l - m \<le> x \<and> x \<le> l + wd + m"
  using assms by linarith

lemma filled_in_margin:
  assumes "box_filled w h m b x y" and "0 \<le> m" and "nonneg_box b"
  shows "b_left b - m \<le> x \<and> x \<le> b_left b + b_width b + m
         \<and> b_top b - m \<le> y \<and> y \<le> b_top b + b_height b + m"
proof -
  have xs: "b_left b - m \<le> x \<and> x \<le> b_left b + b_width b + m"
    using assms unfolding box_filled_def nonneg_box_def in_image_def
    by (intro clamp_span [of _ _ "int w"]) simp_all
  have ys: "b_top b - m \<le> y \<and> y \<le> b_top b + b_height b + m"
    using assms unfolding box_filled_def nonneg_box_def in_image_def
    by (intro clamp_span [of _ _ "int h"]) simp_all
  show ?thesis using xs ys by simp
qed

text \<open>
  C3 (as stated): for every margin \<open>m\<close>, no pixel outside the dilated margin of every
  region is marked. With the margin \<open>- 3\<close> (the command line accepts any integer) and the
  2 by 2 box at (10, 10) on a 20 by 20 image, the corners handed to \<^verbatim>\<open>cv2.rectangle\<close> are
  (13, 13) and (9, 9): the rectangle they span is filled, so pixel (11, 11) is marked,
  and it lies outside the margin rectangle \<open>[13 - 1, 9 + 1]\<close> of the only region.
\<close>

theorem negative_margin_marks_outside:
  "marked (erase_mask 20 20 (- 3) [ex_small_box]) 11 11
   \<and> \<not> in_dilated_margin (- 3) ex_small_box 11 11"
proof -
  have "box_filled 20 20 (- 3) ex_small_box 11 11"
    by (simp add: box_filled_def in_image_def ex_small_box_def)
  then have "marked (erase_mask 20 20 (- 3) [ex_small_box]) 11 11"
    by (intro filled_is_marked [of ex_small_box]) simp_all
  moreover have "\<not> in_dilated_margin (- 3) ex_small_box 11 11"
    by (simp add: in_dilated_margin_def ex_small_box_def)
  ultimately show ?thesis by simp
qed

text \<open>
  C3 (amended): for every image size, region list and margin, after the mask is built and
  dilated once, every pixel strictly inside the clamped rectangle of some region is
  marked; and when the margin is not negative and every region has non-negative left,
  top, width and height, a marked pixel lies in the dilated margin of some region.
\<close>

theorem mask_coverage:
  "(\<forall>b\<in>set boxes. strictly_inside_clamped w h m b x y
       \<longrightarrow> marked (erase_mask w h m boxes) x y)
   \<and> (0 \<le> m \<and> (\<forall>b\<in>set boxes. nonneg_box b) \<and> marked (erase_mask w h m boxes) x y
       \<longrightarrow> (\<exists>b\<in>set boxes. in_dilated_margin m b x y))"
proof (intro conjI ballI impI)
  fix b
  assume "b \<in> set boxes" and "strictly_inside_clamped w h m b x y"
  then show "marked (erase_mask w h m boxes) x y" by (rule inside_is_marked)
next
  assume a: "0 \<le> m \<and> (\<forall>b\<in>set boxes. nonneg_box b) \<and> marked (erase_mask w h m boxes) x y"
  then obtain x' y' b where h: "\<bar>x' - x\<bar> \<le> 1" "\<bar>y' - y\<bar> \<le> 1" "b \<in> set boxes"
      "box_filled w h m b x' y'" unfolding erase_mask_marked by blast
  have nb: "nonneg_box b" using a h(3) by blast
  have m0: "0 \<le> m" using a by simp
  from filled_in_margin [OF h(4) m0 nb] h(1,2)
  have "in_dilated_margin m b x y" unfolding in_dilated_margin_def by linarith
  then show "\<exists>b\<in>set boxes. in_dilated_margin m b x y" using h(3) by blast
qed

theorem mask_coverage_witness:
  "strictly_inside_clamped 20 20 2 ex_small_box 11 11
   \<and> (0::int) \<le> 2 \<and> nonneg_box ex_small_box
   \<and> marked (erase_mask 20 20 2 [ex_small_box]) 11 11
   \<and> in_dilated_margin 2 ex_small_box 11 11"
  using mask_coverage [of "[ex_small_box]" 20 20 2 11 11]
  by (simp add: strictly_inside_clamped_def nonneg_box_def in_dilated_margin_def ex_small_box_def)

section \<open>The path of the reconstructed image\<close>

lemma split_on_nonempty: "split_on c s \<noteq> []"
  by (induction s) (auto split: list.splits)

lemma split_on_no_sep: "c \<notin> set s \<Longrightarrow> split_on c s = [s]"
  by (induction s) auto

lemma split_on_sep: "split_on c (s @ c # t) = split_on c s @ split_on c t"
proof (induction s)
  case Nil
  show ?case by simp
next
  case (Cons x s)
  obtain p ps where sp: "split_on c s = p # ps"
    using split_on_nonempty [of c s] by (cases "split_on c s") auto
  show ?case using Cons sp by simp
qed

lemma split_on_parts_no_sep: "p \<in> set (split_on c s) \<Longrightarrow> c \<notin> set p"
proof (induction s arbitrary: p)
  case Nil
  then show ?case by simp
next
  case (Cons x s)
  obtain q qs where sp: "split_on c s = q # qs"
    using split_on_nonempty [of c s] by (cases "split_on c s") auto
  show ?case
  proof (cases "x = c")
    case True
    then show ?thesis using Cons by auto
  next
    case False
    then have "p = x # q \<or> p \<in> set qs" using Cons.prems sp by simp
    then show ?thesis using Cons.IH [of q] Cons.IH [of p] sp False by auto
  qed
qed

lemma last_split_on_after_sep:
  "c \<notin> set w \<Longrightarrow> last (split_on c (pre @ c # w)) = w"
  by (simp add: split_on_sep split_on_no_sep)

lemma join_with_snoc:
  "join_with c (qs @ [z]) = (if qs = [] then z else join_with c qs @ c # z)"
  by (induction c qs rule: join_with.induct) auto

lemma rfind_Some: "rfind c s = Some i \<Longrightarrow> i < length s \<and> s ! i = c"
  by (induction s arbitrary: i) (auto split: option.splits if_splits)

lemma suffix_of_cases:
  "suffix_of name = [] \<or> (\<exists>t. suffix_of name = CHR ''.'' # t)"
proof (cases "rfind CHR ''.'' name")
  case None
  then show ?thesis by (simp add: suffix_of_def)
next
  case (Some i)
  then have "i < length name" "name ! i = CHR ''.''" using rfind_Some by blast+
  then have "drop i name = CHR ''.'' # drop (Suc i) name"
    by (metis Cons_nth_drop_Suc)
  then show ?thesis using Some by (simp add: suffix_of_def)
qed

lemma stem_suffix:
  "take (length name - length (suffix_of name)) name @ suffix_of name = name"
proof (cases "rfind CHR ''.'' name")
  case None
  then show ?thesis by (simp add: suffix_of_def)
next
  case (Some i)
  then have "i < length name" using rfind_Some by blast
  then show ?thesis using Some by (simp add: suffix_of_def)
qed

lemma last_split_on_path_str:
  assumes "ps \<noteq> []" and "CHR ''/'' \<notin> set (last ps @ t)"
    and "r = [] \<or> r = ''/'' \<or> r = ''//''"
  shows "last (split_on CHR ''/'' (path_str (r, ps) @ t)) = last ps @ t"
proof -
  obtain qs z where ps: "ps = qs @ [z]" using assms(1) by (metis snoc_eq_iff_butlast)
  have z: "CHR ''/'' \<notin> set (z @ t)" using assms(2) ps by simp
  have str: "path_str (r, ps) @ t = r @ join_with CHR ''/'' (qs @ [z]) @ t"
    using ps by (simp add: path_str_def)
  show ?thesis
  proof (cases "qs = []")
    case False
    then have "path_str (r, ps) @ t = (r @ join_with CHR ''/'' qs) @ CHR ''/'' # (z @ t)"
      using str by (simp add: join_with_snoc)
    moreover have "last (split_on CHR ''/'' ((r @ join_with CHR ''/'' qs) @ CHR ''/'' # (z @ t)))
        = z @ t"
      by (rule last_split_on_after_sep [OF z])
    ultimately show ?thesis using ps by simp
  next
    case True
    then have e: "path_str (r, ps) @ t = r @ z @ t" using str by simp
    from assms(3) consider "r = []" | "r = [] @ ''/''" | "r = ''/'' @ ''/''" by auto
    then show ?thesis
    proof cases
      case 1
      then show ?thesis using e z ps True by (simp add: split_on_no_sep)
    next
      case 2
      then have "path_str (r, ps) @ t = [] @ CHR ''/'' # (z @ t)" using e by simp
      then show ?thesis using last_split_on_after_sep [OF z, of "[]"] ps True by simp
    next
      case 3
      then have "path_str (r, ps) @ t = ''/'' @ CHR ''/'' # (z @ t)" using e by simp
      then show ?thesis using last_split_on_after_sep [OF z, of "''/''"] ps True by simp
    qed
  qed
qed

lemma path_root_cases: "path_root s = [] \<or> path_root s = ''/'' \<or> path_root s = ''//''"
  by (simp add: path_root_def)

lemma path_parts_no_sep: "p \<in> set (path_parts s) \<Longrightarrow> CHR ''/'' \<notin> set p"
  by (auto simp: path_parts_def dest: split_on_parts_no_sep)

lemma last_filter_keep: "xs \<noteq> [] \<Longrightarrow> P (last xs) \<Longrightarrow> last (filter P xs) = last xs"
  by (induction xs) (auto simp: filter_empty_conv)

lemma last_path_parts:
  assumes "last (split_on CHR ''/'' s) = n" and "n \<noteq> []" and "n \<noteq> ''.''"
  shows "path_parts s \<noteq> [] \<and> last (path_parts s) = n"
proof -
  let ?xs = "split_on CHR ''/'' s"
  let ?P = "\<lambda>p. p \<noteq> [] \<and> p \<noteq> ''.''"
  have ne: "?xs \<noteq> []" by (rule split_on_nonempty)
  have P: "?P (last ?xs)" using assms by simp
  have "last ?xs \<in> set ?xs" using ne by simp
  then have "filter ?P ?xs \<noteq> []" using P unfolding filter_empty_conv by blast
  moreover have "last (filter ?P ?xs) = last ?xs" using ne P by (rule last_filter_keep)
  ultimately show ?thesis using assms(1) by (simp add: path_parts_def)
qed

lemma clean_path_name:
  assumes "clean_path p = Inr q"
  shows "path_parts p \<noteq> [] \<and> path_parts q \<noteq> []
         \<and> last (path_parts q) \<noteq> last (path_parts p)
         \<and> q = path_str (path_root p,
                 butlast (path_parts p)
                 @ [take (length (last (path_parts p)) - length (suffix_of (last (path_parts p))))
                      (last (path_parts p))]) @ ''_clean.png''"
proof -
  define name where "name = last (path_parts p)"
  define stem where "stem = take (length name - length (suffix_of name)) name"
  have ne: "path_parts p \<noteq> []"
    using assms by (auto simp: clean_path_def with_suffix_empty_def Path_def split: if_splits)
  have q: "q = path_str (path_root p, butlast (path_parts p) @ [stem]) @ ''_clean.png''"
    using assms ne
    by (simp add: clean_path_def with_suffix_empty_def Path_def Let_def name_def stem_def)
  have "name \<in> set (path_parts p)" using ne by (simp add: name_def)
  then have "CHR ''/'' \<notin> set name" by (rule path_parts_no_sep)
  then have "CHR ''/'' \<notin> set stem" unfolding stem_def by (auto dest: in_set_takeD)
  then have ns: "CHR ''/'' \<notin> set (last (butlast (path_parts p) @ [stem]) @ ''_clean.png'')"
    by simp
  have "last (split_on CHR ''/'' q) = last (butlast (path_parts p) @ [stem]) @ ''_clean.png''"
    unfolding q by (rule last_split_on_path_str [OF _ ns path_root_cases]) simp
  then have lq: "last (split_on CHR ''/'' q) = stem @ ''_clean.png''" by simp
  have "stem @ ''_clean.png'' \<noteq> []" "stem @ ''_clean.png'' \<noteq> ''.''" by auto
  from last_path_parts [OF lq this]
  have qn: "path_parts q \<noteq> []" and lastq: "last (path_parts q) = stem @ ''_clean.png''"
    by simp_all
  have nm: "stem @ suffix_of name = name" unfolding stem_def by (rule stem_suffix)
  have "stem @ ''_clean.png'' \<noteq> name"
  proof
    assume "stem @ ''_clean.png'' = name"
    then have "suffix_of name = ''_clean.png''" using nm by (metis same_append_eq)
    then show False using suffix_of_cases [of name] by auto
  qed
  then show ?thesis using ne qn lastq q by (simp add: name_def stem_def)
qed

text \<open>
  C8: whenever background reconstruction writes its image, the file written is at the
  path obtained by appending \<open>''_clean.png''\<close> to the source path stripped of its
  extension, and this path is not the source path: the two differ as strings and name
  different files (their last components differ).
\<close>

theorem inpaint_never_overwrites_source:
  assumes "inpaint_background wld img_path boxes expand_px radius = Inr (out_path, fw)"
  shows "fw_path fw = out_path
         \<and> (\<exists>p. with_suffix_empty (Path img_path) = Inr p
                \<and> out_path = path_str p @ ''_clean.png'')
         \<and> out_path \<noteq> img_path
         \<and> Path out_path \<noteq> Path img_path"
proof -
  from assms have cp: "clean_path img_path = Inr out_path" and fw: "fw_path fw = out_path"
    by (auto simp: inpaint_background_def split: option.splits sum.splits)
  from cp have ws: "\<exists>p. with_suffix_empty (Path img_path) = Inr p
      \<and> out_path = path_str p @ ''_clean.png''"
    by (auto simp: clean_path_def split: sum.splits)
  from clean_path_name [OF cp]
  have d: "last (path_parts out_path) \<noteq> last (path_parts img_path)" by blast
  then have "path_parts out_path \<noteq> path_parts img_path" by auto
  then have "Path out_path \<noteq> Path img_path" by (simp add: Path_def)
  moreover from this have "out_path \<noteq> img_path" by auto
  ultimately show ?thesis using fw ws by simp
qed

theorem inpaint_never_overwrites_source_witness:
  "inpaint_background ex_world ''pages/p1.png'' [ex_box] 2 3
     = Inr (''pages/p1_clean.png'',
            \<lparr>fw_path = ''pages/p1_clean.png'', fw_source = ''pages/p1.png'',
             fw_mask = erase_mask 96 96 2 [ex_box], fw_radius = 3\<rparr>)
   \<and> ''pages/p1_clean.png'' \<noteq> ''pages/p1.png''
   \<and> Path ''pages/p1_clean.png'' \<noteq> Path ''pages/p1.png''"
proof -
  have cp: "clean_path ''pages/p1.png'' = Inr ''pages/p1_clean.png''"
    by (simp add: clean_path_def with_suffix_empty_def Path_def path_root_def path_parts_def
        path_str_def suffix_of_def Let_def)
  have e: "inpaint_background ex_world ''pages/p1.png'' [ex_box] 2 3
     = Inr (''pages/p1_clean.png'',
            \<lparr>fw_path = ''pages/p1_clean.png'', fw_source = ''pages/p1.png'',
             fw_mask = erase_mask 96 96 2 [ex_box], fw_radius = 3\<rparr>)"
    by (simp add: inpaint_background_def ex_world_def cp)
  from inpaint_never_overwrites_source [OF e] e show ?thesis by simp
qed

section \<open>The text boxes of a slide\<close>


lemma slide_textboxes_append [simp]:
  "slide_textboxes (xs @ ys) = slide_textboxes xs @ slide_textboxes ys"
  by (simp add: slide_textboxes_def)

lemma slide_pictures_append [simp]:
  "slide_pictures (xs @ ys) = slide_pictures xs @ slide_pictures ys"
  by (simp add: slide_pictures_def)

lemma slide_textboxes_Nil [simp]: "slide_textboxes [] = []"
  by (simp add: slide_textboxes_def)

lemma slide_pictures_Nil [simp]: "slide_pictures [] = []"
  by (simp add: slide_pictures_def)

lemma add_pptx_text_box_Inr:
  assumes "add_pptx_text_box sl b dpi fname fsize rtl autofit margin_in dbg = Inr sl'"
  shows "\<exists>new tb. sl' = sl @ new \<and> slide_pictures new = [] \<and> slide_textboxes new = [tb]
           \<and> textbox_geometry tb = box_geometry dpi b
           \<and> textbox_margins tb = (Inches margin_in, Inches margin_in, Inches margin_in, Inches margin_in)
           \<and> tb_run_text tb = (case b_text b of None \<Rightarrow> ''[edit]'' | Some t \<Rightarrow> t)"
proof -
  have d: "dpi \<noteq> 0"
    using assms by (auto simp: add_pptx_text_box_def px_to_inches_def split: if_splits)
  show ?thesis
    using assms d
    by (cases dbg)
       (auto simp: add_pptx_text_box_def px_to_inches_def slide_pictures_def slide_textboxes_def
          textbox_geometry_def box_geometry_def textbox_margins_def)
qed


lemma add_pptx_text_loop_Inr:
  assumes "add_pptx_text_loop sl bs dpi fname fsize rtl autofit margin_in dbg = Inr sl'"
  shows "\<exists>new. sl' = sl @ new \<and> slide_pictures new = []
           \<and> map textbox_geometry (slide_textboxes new) = map (box_geometry dpi) bs
           \<and> map tb_run_text (slide_textboxes new)
               = map (\<lambda>b. case b_text b of None \<Rightarrow> ''[edit]'' | Some t \<Rightarrow> t) bs
           \<and> (\<forall>tb\<in>set (slide_textboxes new).
                 textbox_margins tb
                   = (Inches margin_in, Inches margin_in, Inches margin_in, Inches margin_in))"
  using assms
proof (induction bs arbitrary: sl)
  case Nil
  then show ?case by simp
next
  case (Cons b bs)
  from Cons.prems obtain sl1 where
    s1: "add_pptx_text_box sl b dpi fname fsize rtl autofit margin_in dbg = Inr sl1" and
    s2: "add_pptx_text_loop sl1 bs dpi fname fsize rtl autofit margin_in dbg = Inr sl'"
    by (auto split: sum.splits)
  from add_pptx_text_box_Inr [OF s1] obtain n1 tb where
    n1: "sl1 = sl @ n1" "slide_pictures n1 = []" "slide_textboxes n1 = [tb]"
      "textbox_geometry tb = box_geometry dpi b"
      "textbox_margins tb = (Inches margin_in, Inches margin_in, Inches margin_in, Inches margin_in)"
      "tb_run_text tb = (case b_text b of None \<Rightarrow> ''[edit]'' | Some t \<Rightarrow> t)"
    by blast
  from Cons.IH [OF s2] obtain n2 where
    n2: "sl' = sl1 @ n2" "slide_pictures n2 = []"
      "map textbox_geometry (slide_textboxes n2) = map (box_geometry dpi) bs"
      "map tb_run_text (slide_textboxes n2)
         = map (\<lambda>b. case b_text b of None \<Rightarrow> ''[edit]'' | Some t \<Rightarrow> t) bs"
      "\<forall>tb\<in>set (slide_textboxes n2).
         textbox_margins tb
           = (Inches margin_in, Inches margin_in, Inches margin_in, Inches margin_in)"
    by blast
  have "sl' = sl @ (n1 @ n2)" using n1(1) n2(1) by simp
  moreover have "slide_pictures (n1 @ n2) = []" using n1(2) n2(2) by simp
  moreover have "map textbox_geometry (slide_textboxes (n1 @ n2)) = map (box_geometry dpi) (b # bs)"
    using n1(3,4) n2(3) by simp
  moreover have "map tb_run_text (slide_textboxes (n1 @ n2))
      = map (\<lambda>b. case b_text b of None \<Rightarrow> ''[edit]'' | Some t \<Rightarrow> t) (b # bs)"
    using n1(3,6) n2(4) by simp
  moreover have "\<forall>tb\<in>set (slide_textboxes (n1 @ n2)).
      textbox_margins tb = (Inches margin_in, Inches margin_in, Inches margin_in, Inches margin_in)"
    using n1(3,5) n2(5) by simp
  ultimately show ?case by blast
qed




section \<open>OCR prefill of the boxes of a page\<close>

lemma strip_spaces:
  assumes "\<forall>c\<in>set s. is_space c"
  shows "strip s = []"
proof -
  have d: "dropWhile is_space s = []" using assms by (induction s) auto
  show ?thesis unfolding strip_def d by simp
qed

lemma prefill_box_Inr:
  assumes "prefill_box wld opts img_path b = Inr (bb, ev)"
  shows "b_left bb = b_left b \<and> b_top bb = b_top b
         \<and> b_width bb = b_width b \<and> b_height bb = b_height b
         \<and> (\<exists>t. b_text bb = Some t \<and> t \<noteq> []
                \<and> (if opt_ocr_prefill opts
                    then \<exists>txt. ocr_crop wld (tesseract_cmd opts) img_path (crop_box b)
                                  (opt_lang opts) (opt_psm opts) = Inr txt
                           \<and> t = (if txt \<noteq> [] then txt else ''[edit]'')
                           \<and> ev = [OcrCall img_path (crop_box b)]
                    else t = ''[edit]'' \<and> ev = []))"
  using assms
  by (auto simp: prefill_box_def Let_def split: if_splits sum.splits)

lemma prefill_loop_Inr:
  assumes "prefill_loop wld opts img_path bs acc tr = Inr (boxes, tr')"
  shows "\<exists>new evs. boxes = acc @ new \<and> tr' = tr @ evs \<and> opened_images evs = []
           \<and> list_all2 (\<lambda>b bb. \<exists>ev. prefill_box wld opts img_path b = Inr (bb, ev)) bs new"
  using assms
proof (induction bs arbitrary: acc tr)
  case Nil
  then show ?case by (simp add: opened_images_def)
next
  case (Cons b bs)
  from Cons.prems obtain bb ev where
    s1: "prefill_box wld opts img_path b = Inr (bb, ev)" and
    s2: "prefill_loop wld opts img_path bs (acc @ [bb]) (tr @ ev) = Inr (boxes, tr')"
    by (auto split: sum.splits)
  from Cons.IH [OF s2] obtain new evs where
    n: "boxes = (acc @ [bb]) @ new" "tr' = (tr @ ev) @ evs" "opened_images evs = []"
      "list_all2 (\<lambda>b bb. \<exists>ev. prefill_box wld opts img_path b = Inr (bb, ev)) bs new"
    by blast
  have ev: "opened_images ev = []"
    using prefill_box_Inr [OF s1] by (auto simp: opened_images_def split: if_splits)
  have "boxes = acc @ (bb # new)" using n(1) by simp
  moreover have "tr' = tr @ (ev @ evs)" using n(2) by simp
  moreover have "opened_images (ev @ evs) = []" using ev n(3) by (simp add: opened_images_def)
  moreover have "list_all2 (\<lambda>b bb. \<exists>ev. prefill_box wld opts img_path b = Inr (bb, ev))
      (b # bs) (bb # new)" using s1 n(4) by auto
  ultimately show ?case by blast
qed

text \<open>
  C5: of the boxes a page's prefill loop returns there is one per region, in order, and
  each carries a text that is never empty: with OCR prefill disabled it is \<open>''[edit]''\<close>;
  with OCR prefill enabled and an OCR adapter whose trimmed result is the empty string it
  is \<open>''[edit]''\<close> too.
\<close>

theorem ocr_fallback_placeholder:
  assumes "prefill_loop wld opts img_path bs [] tr = Inr (boxes, tr')"
  shows "length boxes = length bs
         \<and> (\<forall>i<length bs.
               b_text (boxes ! i) \<noteq> None \<and> b_text (boxes ! i) \<noteq> Some []
               \<and> (if opt_ocr_prefill opts
                   then ocr_crop wld (tesseract_cmd opts) img_path (crop_box (bs ! i))
                          (opt_lang opts) (opt_psm opts) = Inr []
                        \<longrightarrow> b_text (boxes ! i) = Some ''[edit]''
                   else b_text (boxes ! i) = Some ''[edit]''))"
proof -
  from prefill_loop_Inr [OF assms] have
    l: "list_all2 (\<lambda>b bb. \<exists>ev. prefill_box wld opts img_path b = Inr (bb, ev)) bs boxes"
    by auto
  then have len: "length boxes = length bs" by (simp add: list_all2_lengthD)
  have "b_text (boxes ! i) \<noteq> None \<and> b_text (boxes ! i) \<noteq> Some []
        \<and> (if opt_ocr_prefill opts
            then ocr_crop wld (tesseract_cmd opts) img_path (crop_box (bs ! i))
                   (opt_lang opts) (opt_psm opts) = Inr []
                 \<longrightarrow> b_text (boxes ! i) = Some ''[edit]''
            else b_text (boxes ! i) = Some ''[edit]'')" if "i < length bs" for i
  proof -
    from l that obtain ev where "prefill_box wld opts img_path (bs ! i) = Inr (boxes ! i, ev)"
      by (auto dest: list_all2_nthD)
    from prefill_box_Inr [OF this] show ?thesis by (auto split: if_splits)
  qed
  then show ?thesis using len by blast
qed

theorem ocr_fallback_placeholder_witness:
  "prefill_loop ex_world ex_opts_ocr ''pages/p1.png'' [ex_box] [] []
     = Inr ([ex_box\<lparr>b_text := Some ''[edit]''\<rparr>], [OcrCall ''pages/p1.png'' (10, 10, 30, 20)])
   \<and> opt_ocr_prefill ex_opts_ocr
   \<and> ocr_crop ex_world (tesseract_cmd ex_opts_ocr) ''pages/p1.png'' (crop_box ex_box)
        (opt_lang ex_opts_ocr) (opt_psm ex_opts_ocr) = Inr []
   \<and> prefill_loop ex_world ex_opts ''pages/p1.png'' [ex_box] [] []
        = Inr ([ex_box\<lparr>b_text := Some ''[edit]''\<rparr>], [])
   \<and> \<not> opt_ocr_prefill ex_opts
   \<and> b_text ([ex_box\<lparr>b_text := Some ''[edit]''\<rparr>] ! 0) = Some ''[edit]''"
proof -
  have o: "ocr_crop ex_world (tesseract_cmd ex_opts_ocr) ''pages/p1.png'' (crop_box ex_box)
        (opt_lang ex_opts_ocr) (opt_psm ex_opts_ocr) = Inr []"
    by (simp add: ocr_crop_def ex_world_def strip_def is_space_def)
  have e1: "prefill_loop ex_world ex_opts_ocr ''pages/p1.png'' [ex_box] [] []
     = Inr ([ex_box\<lparr>b_text := Some ''[edit]''\<rparr>], [OcrCall ''pages/p1.png'' (10, 10, 30, 20)])"
    using o by (simp add: prefill_box_def ex_opts_ocr_def ex_opts_def crop_box_def ex_box_def
        Let_def)
  have e2: "prefill_loop ex_world ex_opts ''pages/p1.png'' [ex_box] [] []
        = Inr ([ex_box\<lparr>b_text := Some ''[edit]''\<rparr>], [])"
    by (simp add: prefill_box_def ex_opts_def)
  have p: "opt_ocr_prefill ex_opts_ocr" "\<not> opt_ocr_prefill ex_opts"
    by (simp_all add: ex_opts_ocr_def ex_opts_def)
  from ocr_fallback_placeholder [OF e1] ocr_fallback_placeholder [OF e2] o p
  have "b_text ([ex_box\<lparr>b_text := Some ''[edit]''\<rparr>] ! 0) = Some ''[edit]''" by simp
  then show ?thesis using o e1 e2 p by blast
qed

section \<open>One page of a run\<close>

lemma page_step_Inr:
  assumes "page_step wld opts i im st = Inr st'"
  shows "\<exists>w_px h_px boxes tr bg.
           pil_open wld (im_path im) = Inr (w_px, h_px)
         \<and> prefill_loop wld opts (im_path im) (im_boxes im) []
               (st_trace st @ [Opened (im_path im)]) = Inr (boxes, tr)
         \<and> (if opt_erase opts
             then \<exists>fw. inpaint_background wld (im_path im) boxes (opt_expand_px opts)
                          (opt_radius opts) = Inr (bg, fw)
                    \<and> st_trace st' = tr @ [Wrote fw]
             else bg = im_path im \<and> st_trace st' = tr)
         \<and> opt_dpi opts \<noteq> 0
         \<and> (case st_prs st of
               None \<Rightarrow> st_prs st' = None
             | Some prs \<Rightarrow>
                 \<exists>prs'. pptx_page prs opts bg (of_nat w_px / opt_dpi opts)
                           (of_nat h_px / opt_dpi opts) boxes = Inr prs'
                   \<and> st_prs st' = Some prs')
         \<and> (case st_doc st of
               None \<Rightarrow> st_doc st' = None
             | Some doc \<Rightarrow>
                 \<exists>doc'. docx_page i doc opts bg (of_nat w_px / opt_dpi opts)
                           (of_nat h_px / opt_dpi opts) boxes = Inr doc'
                   \<and> st_doc st' = Some doc')"
proof -
  from assms obtain w_px h_px where o: "pil_open wld (im_path im) = Inr (w_px, h_px)"
    by (auto simp: page_step_def Let_def split: sum.splits)
  from assms o obtain boxes tr where
    p: "prefill_loop wld opts (im_path im) (im_boxes im) []
          (st_trace st @ [Opened (im_path im)]) = Inr (boxes, tr)"
    by (auto simp: page_step_def Let_def split: sum.splits)
  define er where "er = (if opt_erase opts
            then (case inpaint_background wld (im_path im) boxes (opt_expand_px opts) (opt_radius opts) of
                    Inl e \<Rightarrow> Inl e
                  | Inr (out_path, fw) \<Rightarrow> Inr (out_path, tr @ [Wrote fw]))
            else Inr (im_path im, tr))"
  from assms o p obtain bg tr' where e: "er = Inr (bg, tr')"
    unfolding er_def by (auto simp: page_step_def Let_def split: sum.splits)
  have rest: "(case px_to_inches (of_nat w_px) (opt_dpi opts) of Inl e \<Rightarrow> Inl e | Inr w_in \<Rightarrow>
      case px_to_inches (of_nat h_px) (opt_dpi opts) of Inl e \<Rightarrow> Inl e | Inr h_in \<Rightarrow>
      case (case st_prs st of
              None \<Rightarrow> Inr None
            | Some prs \<Rightarrow>
                (case pptx_page prs opts bg w_in h_in boxes of
                   Inl e \<Rightarrow> Inl e | Inr prs' \<Rightarrow> Inr (Some prs'))) of
        Inl e \<Rightarrow> Inl e | Inr prs_opt \<Rightarrow>
      case (case st_doc st of
              None \<Rightarrow> Inr None
            | Some doc \<Rightarrow>
                (case docx_page i doc opts bg w_in h_in boxes of
                   Inl e \<Rightarrow> Inl e | Inr doc' \<Rightarrow> Inr (Some doc'))) of
        Inl e \<Rightarrow> Inl e | Inr doc_opt \<Rightarrow>
      Inr \<lparr>st_prs = prs_opt, st_doc = doc_opt, st_trace = tr'\<rparr>) = Inr st'"
    using assms o p e unfolding er_def page_step_def Let_def by simp
  then have d: "opt_dpi opts \<noteq> 0" by (auto simp: px_to_inches_def split: if_splits)
  have tr: "st_trace st' = tr'"
    using rest d by (auto simp: px_to_inches_def split: sum.splits option.splits)
  have er': "if opt_erase opts
             then \<exists>fw. inpaint_background wld (im_path im) boxes (opt_expand_px opts)
                          (opt_radius opts) = Inr (bg, fw)
                    \<and> st_trace st' = tr @ [Wrote fw]
             else bg = im_path im \<and> st_trace st' = tr"
    using e tr unfolding er_def by (auto split: if_splits sum.splits)
  have prs: "(case st_prs st of
               None \<Rightarrow> st_prs st' = None
             | Some prs \<Rightarrow>
                 \<exists>prs'. pptx_page prs opts bg (of_nat w_px / opt_dpi opts)
                           (of_nat h_px / opt_dpi opts) boxes = Inr prs'
                   \<and> st_prs st' = Some prs')"
    using rest d by (auto simp: px_to_inches_def split: sum.splits option.splits)
  have doc: "(case st_doc st of
               None \<Rightarrow> st_doc st' = None
             | Some doc \<Rightarrow>
                 \<exists>doc'. docx_page i doc opts bg (of_nat w_px / opt_dpi opts)
                           (of_nat h_px / opt_dpi opts) boxes = Inr doc'
                   \<and> st_doc st' = Some doc')"
    using rest d by (auto simp: px_to_inches_def split: sum.splits option.splits)
  show ?thesis using o p er' d prs doc by blast
qed


lemma pptx_page_Inr:
  assumes "pptx_page prs opts bg w_in h_in boxes = Inr prs'"
  shows "slide_width prs' = Inches w_in \<and> slide_height prs' = Inches h_in
         \<and> (\<exists>sl. slides prs' = slides prs @ [sl]
               \<and> map (\<lambda>p. (pic_path p, pic_width p, pic_height p)) (slide_pictures sl)
                   = [(bg, Inches w_in, Inches h_in)]
               \<and> map textbox_geometry (slide_textboxes sl)
                   = map (box_geometry (opt_dpi opts)) boxes)"
proof -
  let ?sl0 = "add_pptx_bg [] bg w_in h_in"
  from assms obtain sl' where
    t: "add_pptx_text_loop ?sl0 boxes (opt_dpi opts) (opt_font_name opts) (opt_font_size_pt opts)
          (opt_rtl opts) (opt_ppt_autofit opts) (max 0 (opt_ppt_margin_pt opts) / 72)
          (opt_debug_outline opts) = Inr sl'" and
    p: "prs' = prs\<lparr>slide_width := Inches w_in, slide_height := Inches h_in,
                  slides := slides prs @ [sl']\<rparr>"
    by (auto simp: pptx_page_def add_pptx_text_def Let_def split: sum.splits)
  from add_pptx_text_loop_Inr [OF t] obtain new where
    n: "sl' = ?sl0 @ new" "slide_pictures new = []"
      "map textbox_geometry (slide_textboxes new) = map (box_geometry (opt_dpi opts)) boxes"
    by blast
  have a: "map (\<lambda>p. (pic_path p, pic_width p, pic_height p)) (slide_pictures sl')
      = [(bg, Inches w_in, Inches h_in)]"
    using n(1,2) by (simp add: add_pptx_bg_def slide_pictures_def)
  have b: "map textbox_geometry (slide_textboxes sl') = map (box_geometry (opt_dpi opts)) boxes"
    using n(1,3) by (simp add: add_pptx_bg_def slide_textboxes_def)
  show ?thesis using p a b by simp
qed

lemma px_to_emu_Inr: "px_to_emu x dpi = Inr v \<Longrightarrow> v = Inches (x / dpi)"
  by (auto simp: px_to_emu_def px_to_inches_def Inches_def EMU_PER_INCH_def split: if_splits)

lemma docx_text_loop_Inr:
  assumes "docx_text_loop doc opts bs = Inr doc'"
  shows "map item_geometry (body doc')
           = map item_geometry (body doc) @ map (\<lambda>b. Some (box_geometry (opt_dpi opts) b)) bs"
  using assms
proof (induction bs arbitrary: doc)
  case Nil
  then show ?case by simp
next
  case (Cons b bs)
  from Cons.prems obtain l t w h tx where
    c: "px_to_emu (of_int (b_left b)) (opt_dpi opts) = Inr l"
       "px_to_emu (of_int (b_top b)) (opt_dpi opts) = Inr t"
       "px_to_emu (of_int (b_width b)) (opt_dpi opts) = Inr w"
       "px_to_emu (of_int (b_height b)) (opt_dpi opts) = Inr h"
       "b_text b = Some tx" and
    r: "docx_text_loop
          (doc\<lparr>body := body doc
                   @ [TextBoxParagraph
                        (add_docx_textbox l t w h tx
                           (opt_font_name opts) (opt_font_size_pt opts) (opt_rtl opts))]\<rparr>)
          opts bs = Inr doc'"
    by (auto split: sum.splits option.splits)
  have g: "item_geometry (TextBoxParagraph
                        (add_docx_textbox l t w h tx
                           (opt_font_name opts) (opt_font_size_pt opts) (opt_rtl opts)))
           = Some (box_geometry (opt_dpi opts) b)"
    using c(1-4) by (simp add: add_docx_textbox_def box_geometry_def px_to_emu_Inr)
  show ?case using Cons.IH [OF r] g by simp
qed

lemma docx_page_Inr:
  assumes "docx_page i doc opts bg w_in h_in boxes = Inr doc'"
  shows "map item_geometry (body doc')
           = map item_geometry (body doc) @ (if 0 < i then [None] else [])
             @ map (\<lambda>b. Some (box_geometry (opt_dpi opts) b)) boxes"
  using docx_text_loop_Inr [OF assms [unfolded docx_page_def Let_def]]
  by (simp add: add_docx_bg_header_def)

lemma prefill_keeps_geometry:
  assumes "list_all2 (\<lambda>b bb. \<exists>ev. prefill_box wld opts img_path b = Inr (bb, ev)) bs new"
  shows "map (box_geometry dpi) new = map (box_geometry dpi) bs"
  using assms
proof (induction rule: list_all2_induct)
  case Nil
  show ?case by simp
next
  case (Cons b bs bb new)
  from Cons(1) obtain ev where "prefill_box wld opts img_path b = Inr (bb, ev)" by blast
  from prefill_box_Inr [OF this] have "box_geometry dpi bb = box_geometry dpi b"
    by (simp add: box_geometry_def)
  then show ?case using Cons by simp
qed

lemma inpaint_background_path:
  "inpaint_background wld img_path boxes m r = Inr (bg, fw) \<Longrightarrow> clean_path img_path = Inr bg"
  by (auto simp: inpaint_background_def split: option.splits sum.splits)

lemma page_step_facts:
  assumes "page_step wld opts i im st = Inr st'"
  shows "(case st_prs st of
            None \<Rightarrow> st_prs st' = None
          | Some prs \<Rightarrow>
              \<exists>prs' sl. st_prs st' = Some prs' \<and> slides prs' = slides prs @ [sl]
                \<and> slide_matches wld opts sl im
                \<and> own_physical_size wld (opt_dpi opts) prs' im)
         \<and> (case st_doc st of
               None \<Rightarrow> st_doc st' = None
             | Some doc \<Rightarrow>
                 \<exists>doc'. st_doc st' = Some doc'
                   \<and> map item_geometry (body doc')
                       = map item_geometry (body doc) @ pages_geometry (opt_dpi opts) i [im])
         \<and> opened_images (st_trace st') = opened_images (st_trace st) @ [im_path im]"
proof -
  from page_step_Inr [OF assms] obtain w_px h_px boxes tr bg where
    o: "pil_open wld (im_path im) = Inr (w_px, h_px)" and
    p: "prefill_loop wld opts (im_path im) (im_boxes im) []
          (st_trace st @ [Opened (im_path im)]) = Inr (boxes, tr)" and
    e: "if opt_erase opts
        then \<exists>fw. inpaint_background wld (im_path im) boxes (opt_expand_px opts)
                     (opt_radius opts) = Inr (bg, fw)
               \<and> st_trace st' = tr @ [Wrote fw]
        else bg = im_path im \<and> st_trace st' = tr" and
    ps: "case st_prs st of
           None \<Rightarrow> st_prs st' = None
         | Some prs \<Rightarrow>
             \<exists>prs'. pptx_page prs opts bg (of_nat w_px / opt_dpi opts)
                       (of_nat h_px / opt_dpi opts) boxes = Inr prs'
               \<and> st_prs st' = Some prs'" and
    ds: "case st_doc st of
           None \<Rightarrow> st_doc st' = None
         | Some doc \<Rightarrow>
             \<exists>doc'. docx_page i doc opts bg (of_nat w_px / opt_dpi opts)
                       (of_nat h_px / opt_dpi opts) boxes = Inr doc'
               \<and> st_doc st' = Some doc'"
    by blast
  from prefill_loop_Inr [OF p] obtain evs where
    tr: "tr = (st_trace st @ [Opened (im_path im)]) @ evs" "opened_images evs = []" and
    l: "list_all2 (\<lambda>b bb. \<exists>ev. prefill_box wld opts (im_path im) b = Inr (bb, ev))
          (im_boxes im) boxes"
    by auto
  have geo: "map (box_geometry (opt_dpi opts)) boxes
      = map (box_geometry (opt_dpi opts)) (im_boxes im)"
    using l by (rule prefill_keeps_geometry)
  have "map (\<lambda>b. Some (box_geometry (opt_dpi opts) b)) xs
      = map Some (map (box_geometry (opt_dpi opts)) xs)" for xs
    by simp
  then have geo': "map (\<lambda>b. Some (box_geometry (opt_dpi opts) b)) boxes
      = map (\<lambda>b. Some (box_geometry (opt_dpi opts) b)) (im_boxes im)"
    using geo by metis
  have bg: "bg = background_path opts (im_path im)"
    using e by (auto simp: background_path_def dest: inpaint_background_path split: if_splits)
  have "opened_images (st_trace st') = opened_images tr"
    using e by (auto simp: opened_images_def split: if_splits)
  then have t: "opened_images (st_trace st') = opened_images (st_trace st) @ [im_path im]"
    using tr by (simp add: opened_images_def)
  have a: "case st_prs st of
            None \<Rightarrow> st_prs st' = None
          | Some prs \<Rightarrow>
              \<exists>prs' sl. st_prs st' = Some prs' \<and> slides prs' = slides prs @ [sl]
                \<and> slide_matches wld opts sl im
                \<and> own_physical_size wld (opt_dpi opts) prs' im"
  proof (cases "st_prs st")
    case None
    then show ?thesis using ps by simp
  next
    case (Some prs)
    with ps obtain prs' where
      pp: "pptx_page prs opts bg (of_nat w_px / opt_dpi opts) (of_nat h_px / opt_dpi opts) boxes
             = Inr prs'" and s': "st_prs st' = Some prs'" by auto
    from pptx_page_Inr [OF pp] obtain sl where
      f: "slide_width prs' = Inches (of_nat w_px / opt_dpi opts)"
         "slide_height prs' = Inches (of_nat h_px / opt_dpi opts)"
         "slides prs' = slides prs @ [sl]"
         "map (\<lambda>p. (pic_path p, pic_width p, pic_height p)) (slide_pictures sl)
            = [(bg, Inches (of_nat w_px / opt_dpi opts), Inches (of_nat h_px / opt_dpi opts))]"
         "map textbox_geometry (slide_textboxes sl) = map (box_geometry (opt_dpi opts)) boxes"
      by (elim conjE exE)
    have "slide_matches wld opts sl im"
      using f(4,5) o bg geo by (simp add: slide_matches_def background_own_size_def)
    moreover have "own_physical_size wld (opt_dpi opts) prs' im"
      using f(1,2) o by (simp add: own_physical_size_def)
    ultimately show ?thesis using Some s' f(3) by simp
  qed
  have b: "case st_doc st of
               None \<Rightarrow> st_doc st' = None
             | Some doc \<Rightarrow>
                 \<exists>doc'. st_doc st' = Some doc'
                   \<and> map item_geometry (body doc')
                       = map item_geometry (body doc) @ pages_geometry (opt_dpi opts) i [im]"
  proof (cases "st_doc st")
    case None
    then show ?thesis using ds by simp
  next
    case (Some doc)
    with ds obtain doc' where
      dp: "docx_page i doc opts bg (of_nat w_px / opt_dpi opts) (of_nat h_px / opt_dpi opts) boxes
             = Inr doc'" and s': "st_doc st' = Some doc'" by auto
    from docx_page_Inr [OF dp] geo'
    have "map item_geometry (body doc')
        = map item_geometry (body doc) @ pages_geometry (opt_dpi opts) i [im]" by simp
    then show ?thesis using Some s' by simp
  qed
  show ?thesis using a b t by blast
qed

lemma pages_loop_Cons:
  assumes "pages_loop wld opts i (im # rest) st = Inr st'"
  obtains st1 where "page_step wld opts i im st = Inr st1"
    and "pages_loop wld opts (Suc i) rest st1 = Inr st'"
  using assms by (auto split: sum.splits)

lemma pages_loop_deck:
  assumes "pages_loop wld opts i ims st = Inr st'" and "st_prs st = Some prs"
  shows "\<exists>prs' new. st_prs st' = Some prs' \<and> slides prs' = slides prs @ new
           \<and> list_all2 (slide_matches wld opts) new ims
           \<and> (ims \<noteq> [] \<longrightarrow> own_physical_size wld (opt_dpi opts) prs' (last ims))"
  using assms
proof (induction ims arbitrary: i st prs)
  case Nil
  then show ?case by simp
next
  case (Cons im rest)
  from Cons.prems(1) obtain st1 where
    s1: "page_step wld opts i im st = Inr st1" and
    s2: "pages_loop wld opts (Suc i) rest st1 = Inr st'"
    by (rule pages_loop_Cons)
  from page_step_facts [OF s1] Cons.prems(2) obtain prs1 sl where
    f: "st_prs st1 = Some prs1" "slides prs1 = slides prs @ [sl]"
       "slide_matches wld opts sl im" "own_physical_size wld (opt_dpi opts) prs1 im"
    by auto
  from Cons.IH [OF s2 f(1)] obtain prs' new where
    n: "st_prs st' = Some prs'" "slides prs' = slides prs1 @ new"
       "list_all2 (slide_matches wld opts) new rest"
       "rest \<noteq> [] \<longrightarrow> own_physical_size wld (opt_dpi opts) prs' (last rest)"
    by blast
  have last: "own_physical_size wld (opt_dpi opts) prs' (last (im # rest))"
  proof (cases "rest = []")
    case True
    then have "st' = st1" using s2 by simp
    then show ?thesis using f(1,4) n(1) True by simp
  next
    case False
    then show ?thesis using n(4) by simp
  qed
  have "slides prs' = slides prs @ (sl # new)" using f(2) n(2) by simp
  moreover have "list_all2 (slide_matches wld opts) (sl # new) (im # rest)"
    using f(3) n(3) by simp
  ultimately show ?case using n(1) last by blast
qed

lemma pages_loop_no_deck:
  assumes "pages_loop wld opts i ims st = Inr st'" and "st_prs st = None"
  shows "st_prs st' = None"
  using assms
proof (induction ims arbitrary: i st)
  case Nil
  then show ?case by simp
next
  case (Cons im rest)
  from Cons.prems(1) obtain st1 where
    s1: "page_step wld opts i im st = Inr st1" and
    s2: "pages_loop wld opts (Suc i) rest st1 = Inr st'"
    by (rule pages_loop_Cons)
  from page_step_facts [OF s1] Cons.prems(2) have "st_prs st1 = None" by simp
  then show ?case using Cons.IH [OF s2] by simp
qed

lemma pages_loop_document:
  assumes "pages_loop wld opts i ims st = Inr st'" and "st_doc st = Some doc"
  shows "\<exists>doc'. st_doc st' = Some doc'
           \<and> map item_geometry (body doc')
               = map item_geometry (body doc) @ pages_geometry (opt_dpi opts) i ims"
  using assms
proof (induction ims arbitrary: i st doc)
  case Nil
  then show ?case by simp
next
  case (Cons im rest)
  from Cons.prems(1) obtain st1 where
    s1: "page_step wld opts i im st = Inr st1" and
    s2: "pages_loop wld opts (Suc i) rest st1 = Inr st'"
    by (rule pages_loop_Cons)
  from page_step_facts [OF s1] Cons.prems(2) obtain doc1 where
    f: "st_doc st1 = Some doc1"
       "map item_geometry (body doc1)
          = map item_geometry (body doc) @ pages_geometry (opt_dpi opts) i [im]"
    by auto
  from Cons.IH [OF s2 f(1)] obtain doc' where
    n: "st_doc st' = Some doc'"
       "map item_geometry (body doc')
          = map item_geometry (body doc1) @ pages_geometry (opt_dpi opts) (Suc i) rest"
    by blast
  have "map item_geometry (body doc')
      = map item_geometry (body doc) @ pages_geometry (opt_dpi opts) i (im # rest)"
    using f(2) n(2) by simp
  then show ?case using n(1) by blast
qed

lemma pages_loop_no_document:
  assumes "pages_loop wld opts i ims st = Inr st'" and "st_doc st = None"
  shows "st_doc st' = None"
  using assms
proof (induction ims arbitrary: i st)
  case Nil
  then show ?case by simp
next
  case (Cons im rest)
  from Cons.prems(1) obtain st1 where
    s1: "page_step wld opts i im st = Inr st1" and
    s2: "pages_loop wld opts (Suc i) rest st1 = Inr st'"
    by (rule pages_loop_Cons)
  from page_step_facts [OF s1] Cons.prems(2) have "st_doc st1 = None" by simp
  then show ?case using Cons.IH [OF s2] by simp
qed



section \<open>Whole runs\<close>

lemma save_to_Inr:
  "save_to wld p d = Inr r \<Longrightarrow> r = map_option (\<lambda>x. (the p, x)) d"
  by (auto simp: save_to_def split: option.splits if_splits)

lemma build_from_json_Inr:
  assumes "build_from_json wld json_path opts = Inr out"
    and "read_region_file wld json_path = Inr images"
  shows "\<exists>st. pages_loop wld opts 0 images
                \<lparr>st_prs = (if truthy_str (opt_out_pptx opts) then Some (Presentation wld) else None),
                 st_doc = (if truthy_str (opt_out_docx opts) then Some (Document wld) else None),
                 st_trace = []\<rparr> = Inr st
              \<and> oc_pptx out = map_option (\<lambda>x. (the (opt_out_pptx opts), x)) (st_prs st)
              \<and> oc_docx out = map_option (\<lambda>x. (the (opt_out_docx opts), x)) (st_doc st)
              \<and> oc_trace out = st_trace st"
proof -
  let ?st0 = "\<lparr>st_prs = (if truthy_str (opt_out_pptx opts) then Some (Presentation wld) else None),
                 st_doc = (if truthy_str (opt_out_docx opts) then Some (Document wld) else None),
                 st_trace = []\<rparr>"
  from assms obtain st where l: "pages_loop wld opts 0 images ?st0 = Inr st"
    by (auto simp: build_from_json_def Let_def split: sum.splits)
  from assms l obtain sp sd where
    s: "save_to wld (opt_out_pptx opts) (st_prs st) = Inr sp"
       "save_to wld (opt_out_docx opts) (st_doc st) = Inr sd"
       "out = \<lparr>oc_pptx = sp, oc_docx = sd, oc_trace = st_trace st\<rparr>"
    by (auto simp: build_from_json_def Let_def split: sum.splits)
  show ?thesis using l s save_to_Inr [OF s(1)] save_to_Inr [OF s(2)] by simp
qed

lemma build_from_json_deck:
  assumes "build_from_json wld json_path opts = Inr out"
    and "oc_pptx out = Some (path, prs)"
    and "read_region_file wld json_path = Inr images"
  shows "list_all2 (slide_matches wld opts) (slides prs) images
         \<and> (images \<noteq> [] \<longrightarrow> own_physical_size wld (opt_dpi opts) prs (last images))"
proof -
  from build_from_json_Inr [OF assms(1,3)] obtain st where
    l: "pages_loop wld opts 0 images
                \<lparr>st_prs = (if truthy_str (opt_out_pptx opts) then Some (Presentation wld) else None),
                 st_doc = (if truthy_str (opt_out_docx opts) then Some (Document wld) else None),
                 st_trace = []\<rparr> = Inr st" and
    o: "oc_pptx out = map_option (\<lambda>x. (the (opt_out_pptx opts), x)) (st_prs st)"
    by blast
  have sp: "st_prs st = Some prs" using o assms(2) by (cases "st_prs st") auto
  have t: "truthy_str (opt_out_pptx opts)"
  proof (rule ccontr)
    assume "\<not> truthy_str (opt_out_pptx opts)"
    then have "st_prs st = None" using pages_loop_no_deck [OF l] by simp
    then show False using sp by simp
  qed
  from pages_loop_deck [OF l, of "Presentation wld"] t obtain prs' new where
    n: "st_prs st = Some prs'" "slides prs' = slides (Presentation wld) @ new"
       "list_all2 (slide_matches wld opts) new images"
       "images \<noteq> [] \<longrightarrow> own_physical_size wld (opt_dpi opts) prs' (last images)"
    by auto
  have "prs' = prs" using n(1) sp by simp
  moreover have "slides prs' = new" using n(2) by (simp add: Presentation_def)
  ultimately show ?thesis using n(3,4) by simp
qed

lemma build_from_json_document:
  assumes "build_from_json wld json_path opts = Inr out"
    and "oc_docx out = Some (path, doc)"
    and "read_region_file wld json_path = Inr images"
  shows "map item_geometry (body doc) = pages_geometry (opt_dpi opts) 0 images"
proof -
  from build_from_json_Inr [OF assms(1,3)] obtain st where
    l: "pages_loop wld opts 0 images
                \<lparr>st_prs = (if truthy_str (opt_out_pptx opts) then Some (Presentation wld) else None),
                 st_doc = (if truthy_str (opt_out_docx opts) then Some (Document wld) else None),
                 st_trace = []\<rparr> = Inr st" and
    o: "oc_docx out = map_option (\<lambda>x. (the (opt_out_docx opts), x)) (st_doc st)"
    by blast
  have sd: "st_doc st = Some doc" using o assms(2) by (cases "st_doc st") auto
  have t: "truthy_str (opt_out_docx opts)"
  proof (rule ccontr)
    assume "\<not> truthy_str (opt_out_docx opts)"
    then have "st_doc st = None" using pages_loop_no_document [OF l] by simp
    then show False using sd by simp
  qed
  from pages_loop_document [OF l, of "Document wld"] t obtain doc' where
    n: "st_doc st = Some doc'"
       "map item_geometry (body doc')
          = map item_geometry (body (Document wld)) @ pages_geometry (opt_dpi opts) 0 images"
    by auto
  have "body (Document wld) = []" by (simp add: Document_def split: prod.splits)
  then show ?thesis using n sd by simp
qed

lemma pages_loop_every_page:
  assumes "pages_loop wld opts i ims st = Inr st'" and "im \<in> set ims"
  shows "\<exists>j st1 st2. page_step wld opts j im st1 = Inr st2"
  using assms
proof (induction ims arbitrary: i st)
  case Nil
  then show ?case by simp
next
  case (Cons x rest)
  from Cons.prems(1) obtain st1 where
    s1: "page_step wld opts i x st = Inr st1" and
    s2: "pages_loop wld opts (Suc i) rest st1 = Inr st'"
    by (rule pages_loop_Cons)
  show ?case
  proof (cases "im = x")
    case True
    then show ?thesis using s1 by blast
  next
    case False
    then have "im \<in> set rest" using Cons.prems(2) by simp
    then show ?thesis using Cons.IH [OF s2] by blast
  qed
qed

lemma page_step_every_box:
  assumes "page_step wld opts j im st1 = Inr st2" and "b \<in> set (im_boxes im)"
  shows "\<exists>bb ev. prefill_box wld opts (im_path im) b = Inr (bb, ev)"
proof -
  from page_step_Inr [OF assms(1)] obtain boxes tr where
    "prefill_loop wld opts (im_path im) (im_boxes im) []
       (st_trace st1 @ [Opened (im_path im)]) = Inr (boxes, tr)" by blast
  from prefill_loop_Inr [OF this]
  have "list_all2 (\<lambda>b bb. \<exists>ev. prefill_box wld opts (im_path im) b = Inr (bb, ev))
          (im_boxes im) boxes" by auto
  then show ?thesis using assms(2) by (auto simp: list_all2_conv_all_nth in_set_conv_nth)
qed

lemma prefill_box_engine_raises:
  assumes "opt_ocr_prefill opts"
    and "image_to_string wld
           \<lparr>rq_cmd = tesseract_cmd opts, rq_source = img_path, rq_crop = crop_box b,
            rq_lang = opt_lang opts, rq_config = psm_config (opt_psm opts)\<rparr> = Inl e"
  shows "prefill_box wld opts img_path b = Inl e"
  using assms by (simp add: prefill_box_def ocr_crop_def Let_def)

lemmas run_defs =
  build_from_json_def page_step_def prefill_box_def ocr_crop_def crop_box_def
  pptx_page_def add_pptx_text_def add_pptx_text_box_def add_pptx_bg_def
  docx_page_def add_docx_bg_header_def add_docx_textbox_def
  px_to_inches_def px_to_emu_def Inches_def Pt_def Emu_def py_int_def EMU_PER_INCH_def
  truthy_str_def truthy_num_def save_to_def Presentation_def Document_def
  tesseract_cmd_def psm_config_def strip_def is_space_def Let_def

lemma ex_run_ocr_fails:
  "build_from_json ex_world_ocr_fails ''regions.json'' ex_opts_ocr
     = Inl (OcrEngineError ''tesseract failed'')"
  by (simp add: run_defs ex_world_ocr_fails_def ex_world_def ex_opts_ocr_def ex_opts_def
      ex_images_def ex_box_def)


lemma ex_run_deck_size:
  "map_option (\<lambda>p. (slide_width p, slide_height p, length (slides p)))
     (saved_deck (build_from_json ex_world ''regions.json'' ex_opts))
     = Some (1828800, 914400, 2)"
  by (simp add: run_defs ex_world_def ex_opts_def saved_deck_def ex_images_def ex_box_def
      floor_eq_iff)

lemma ex_run_both_saved:
  "\<exists>out prs doc. build_from_json ex_world ''regions.json'' ex_opts_both = Inr out
     \<and> oc_pptx out = Some (''out.pptx'', prs) \<and> oc_docx out = Some (''out.docx'', doc)"
  by (simp add: run_defs ex_world_def ex_opts_both_def ex_opts_def ex_images_def ex_box_def)

lemma ex_read: "read_region_file ex_world ''regions.json'' = Inr ex_images"
  by (simp add: ex_world_def)

text \<open>
  C2 (as stated): every slide of the deck has the physical size of its own page image,
  also when the images differ in size. In the concrete run the two images are 96 by 96
  and 192 by 96 pixels at 96 dpi: the deck is saved with the one slide size 1828800 by
  914400 EMU, the size of the second image, which is not the size 914400 by 914400 of
  the image of the first slide.
\<close>

theorem deck_size_not_per_slide:
  "saved_deck (build_from_json ex_world ''regions.json'' ex_opts) \<noteq> None
   \<and> \<not> own_physical_size ex_world (opt_dpi ex_opts)
         (the (saved_deck (build_from_json ex_world ''regions.json'' ex_opts))) (ex_images ! 0)"
proof -
  from ex_run_deck_size obtain p where
    p: "saved_deck (build_from_json ex_world ''regions.json'' ex_opts) = Some p"
       "slide_width p = 1828800"
    by auto
  have "\<not> own_physical_size ex_world (opt_dpi ex_opts) p (ex_images ! 0)"
    using p(2)
    by (simp add: own_physical_size_def ex_world_def ex_opts_def ex_images_def Inches_def
        py_int_def)
  then show ?thesis using p(1) by simp
qed

text \<open>
  C2 (amended): a deck has one slide size for all its slides. In the deck a run saves,
  there is one slide per image, in order; the background picture of each slide has the
  physical size of its own page image (width and height in pixels divided by dpi, in
  EMU); and the slide size of the deck is the physical size of the last image.
\<close>

theorem deck_size_is_last_image:
  assumes "build_from_json wld json_path opts = Inr out"
    and "oc_pptx out = Some (path, prs)"
    and "read_region_file wld json_path = Inr images"
  shows "length (slides prs) = length images
         \<and> list_all2 (background_own_size wld opts) (slides prs) images
         \<and> (images \<noteq> [] \<longrightarrow> own_physical_size wld (opt_dpi opts) prs (last images))"
proof -
  from build_from_json_deck [OF assms] have
    m: "list_all2 (slide_matches wld opts) (slides prs) images" and
    l: "images \<noteq> [] \<longrightarrow> own_physical_size wld (opt_dpi opts) prs (last images)"
    by simp_all
  have "list_all2 (background_own_size wld opts) (slides prs) images"
    using m by (rule list_all2_mono) (simp add: slide_matches_def)
  then show ?thesis using m l by (simp add: list_all2_lengthD)
qed

theorem deck_size_is_last_image_witness:
  "\<exists>out prs. build_from_json ex_world ''regions.json'' ex_opts_both = Inr out
     \<and> oc_pptx out = Some (''out.pptx'', prs)
     \<and> read_region_file ex_world ''regions.json'' = Inr ex_images
     \<and> length (slides prs) = length ex_images
     \<and> list_all2 (background_own_size ex_world ex_opts_both) (slides prs) ex_images
     \<and> ex_images \<noteq> []
     \<and> own_physical_size ex_world (opt_dpi ex_opts_both) prs (last ex_images)"
proof -
  from ex_run_both_saved obtain out prs where
    r: "build_from_json ex_world ''regions.json'' ex_opts_both = Inr out"
       "oc_pptx out = Some (''out.pptx'', prs)" by blast
  have ne: "ex_images \<noteq> []" by (simp add: ex_images_def)
  from deck_size_is_last_image [OF r ex_read] ne r ex_read show ?thesis by blast
qed

text \<open>
  C9: in the documents a run saves, the slides are the images of the region file in
  their order, each slide showing the background of its image and carrying the text
  boxes of that image's boxes in the order of the region file; the body of the
  word-processor document is the pages in that order, a page break before every page
  but the first, each page with its text boxes in the order of the region file.
\<close>

theorem order_preserved:
  assumes "build_from_json wld json_path opts = Inr out"
    and "read_region_file wld json_path = Inr images"
  shows "(\<forall>path prs. oc_pptx out = Some (path, prs)
            \<longrightarrow> list_all2 (slide_matches wld opts) (slides prs) images)
         \<and> (\<forall>path doc. oc_docx out = Some (path, doc)
            \<longrightarrow> map item_geometry (body doc) = pages_geometry (opt_dpi opts) 0 images)"
  using build_from_json_deck [OF assms(1) _ assms(2)]
    build_from_json_document [OF assms(1) _ assms(2)]
  by blast

theorem order_preserved_witness:
  "\<exists>out prs doc. build_from_json ex_world ''regions.json'' ex_opts_both = Inr out
     \<and> read_region_file ex_world ''regions.json'' = Inr ex_images
     \<and> oc_pptx out = Some (''out.pptx'', prs)
     \<and> list_all2 (slide_matches ex_world ex_opts_both) (slides prs) ex_images
     \<and> oc_docx out = Some (''out.docx'', doc)
     \<and> map item_geometry (body doc) = pages_geometry (opt_dpi ex_opts_both) 0 ex_images"
proof -
  from ex_run_both_saved obtain out prs doc where
    r: "build_from_json ex_world ''regions.json'' ex_opts_both = Inr out"
       "oc_pptx out = Some (''out.pptx'', prs)" "oc_docx out = Some (''out.docx'', doc)"
    by blast
  from order_preserved [OF r(1) ex_read] r ex_read show ?thesis by blast
qed

text \<open>
  C6 (as stated): with OCR prefill enabled, an error raised by the OCR engine for a
  region is not fatal; the region gets \<open>''[edit]''\<close> and the run goes on. In the concrete
  run with an engine that raises, the run ends with the engine's error.
\<close>

theorem ocr_engine_error_ends_run:
  "build_from_json ex_world_ocr_fails ''regions.json'' ex_opts_ocr
     = Inl (OcrEngineError ''tesseract failed'')"
  by (rule ex_run_ocr_fails)

text \<open>
  C6 (amended): with OCR prefill enabled, an error raised by the OCR engine for a region
  of any page of the region file is fatal: the run ends with an error and saves no
  document. (The placeholder replaces only an empty result, see C5.)
\<close>

theorem ocr_engine_failure_is_fatal:
  assumes "opt_ocr_prefill opts"
    and "read_region_file wld json_path = Inr images"
    and "im \<in> set images" and "b \<in> set (im_boxes im)"
    and "image_to_string wld
           \<lparr>rq_cmd = tesseract_cmd opts, rq_source = im_path im, rq_crop = crop_box b,
            rq_lang = opt_lang opts, rq_config = psm_config (opt_psm opts)\<rparr> = Inl e"
  shows "\<exists>e'. build_from_json wld json_path opts = Inl e'"
proof (cases "build_from_json wld json_path opts")
  case (Inl e')
  then show ?thesis by blast
next
  case (Inr out)
  from build_from_json_Inr [OF Inr assms(2)] obtain st0 st where
    "pages_loop wld opts 0 images st0 = Inr st" by blast
  from pages_loop_every_page [OF this assms(3)] obtain j st1 st2 where
    "page_step wld opts j im st1 = Inr st2" by blast
  from page_step_every_box [OF this assms(4)] obtain bb ev where
    "prefill_box wld opts (im_path im) b = Inr (bb, ev)" by blast
  then show ?thesis using prefill_box_engine_raises [OF assms(1,5)] by simp
qed

theorem ocr_engine_failure_is_fatal_witness:
  "opt_ocr_prefill ex_opts_ocr
   \<and> read_region_file ex_world_ocr_fails ''regions.json'' = Inr ex_images
   \<and> ex_images ! 0 \<in> set ex_images \<and> ex_box \<in> set (im_boxes (ex_images ! 0))
   \<and> image_to_string ex_world_ocr_fails
        \<lparr>rq_cmd = tesseract_cmd ex_opts_ocr, rq_source = im_path (ex_images ! 0),
         rq_crop = crop_box ex_box, rq_lang = opt_lang ex_opts_ocr,
         rq_config = psm_config (opt_psm ex_opts_ocr)\<rparr> = Inl (OcrEngineError ''tesseract failed'')
   \<and> (\<exists>e'. build_from_json ex_world_ocr_fails ''regions.json'' ex_opts_ocr = Inl e')"
proof -
  have a: "opt_ocr_prefill ex_opts_ocr" by (simp add: ex_opts_ocr_def)
  have b: "read_region_file ex_world_ocr_fails ''regions.json'' = Inr ex_images"
    by (simp add: ex_world_ocr_fails_def ex_world_def)
  have c: "ex_images ! 0 \<in> set ex_images" by (simp add: ex_images_def)
  have d: "ex_box \<in> set (im_boxes (ex_images ! 0))" by (simp add: ex_images_def)
  have e: "image_to_string ex_world_ocr_fails
        \<lparr>rq_cmd = tesseract_cmd ex_opts_ocr, rq_source = im_path (ex_images ! 0),
         rq_crop = crop_box ex_box, rq_lang = opt_lang ex_opts_ocr,
         rq_config = psm_config (opt_psm ex_opts_ocr)\<rparr> = Inl (OcrEngineError ''tesseract failed'')"
    by (simp add: ex_world_ocr_fails_def)
  from ocr_engine_failure_is_fatal [OF a b c d e] a b c d e show ?thesis by blast
qed




end
